(* ===== verification/Prelude.thy ===== *)
theory Prelude
  imports Complex_Main "HOL-Library.Word" "HOL-Library.Multiset" "HOL-Library.Product_Lexorder"
  "HOL-Library.Code_Target_Nat"
begin

text \<open>
  The vocabulary every component shares: octet strings and their little-endian integers
  (Python's \<^verbatim>\<open>int.to_bytes\<close>, \<^verbatim>\<open>int.from_bytes\<close> and \<^verbatim>\<open>struct.pack("<...")\<close>), Python exceptions as
  values of a sum type, slices, and the list facts (stable sorting, filters and sums) the
  component theories use. The collections \<open>bytes_simps\<close> (lengths and round trips of
  encodings) and \<open>res_simps\<close> (unfolding of the result combinators) carry their proofs.
\<close>

named_theorems bytes_simps \<open>lengths and round trips of byte encodings\<close>
named_theorems res_simps \<open>unfolding the result combinators\<close>

section \<open>Types\<close>

type_synonym byte = "8 word"
type_synonym bytes = "byte list"

text \<open>Wall-clock and monotonic times: Python floats, which the program only adds, subtracts,
  scales and compares. They are exact rationals here.\<close>

type_synonym time = rat

text \<open>The exceptions the modelled code raises or lets through.\<close>

datatype exn =
    ValueError string
  | OverflowError
  | StructError
  | IndexError
  | KeyError
  | TypeError
  | ChainError string
  | ChainBusy string
  | ChainUnsupported string
  | Jip2Error int
  | OSError
  | WebSocketError string
  | DeployError string
  | SetupError string
  | RuntimeError string

type_synonym 'a res = "exn + 'a"

abbreviation Ok :: "'a \<Rightarrow> 'a res" where "Ok \<equiv> Inr"
abbreviation Raise :: "exn \<Rightarrow> 'a res" where "Raise \<equiv> Inl"

definition bind_res :: "'a res \<Rightarrow> ('a \<Rightarrow> 'b res) \<Rightarrow> 'b res" where
  "bind_res r f = (case r of Inl e \<Rightarrow> Inl e | Inr x \<Rightarrow> f x)"

lemma bind_res_Ok [simp]: "bind_res (Inr x) f = f x"
  by (simp add: bind_res_def)

lemma bind_res_Raise [simp]: "bind_res (Inl e) f = Inl e"
  by (simp add: bind_res_def)

lemma bind_res_eq_Ok [res_simps]: "bind_res r f = Inr y \<longleftrightarrow> (\<exists>x. r = Inr x \<and> f x = Inr y)"
  by (cases r) simp_all

lemma bind_res_eq_Raise [res_simps]:
  "bind_res r f = Inl e \<longleftrightarrow> r = Inl e \<or> (\<exists>x. r = Inr x \<and> f x = Inl e)"
  by (cases r) simp_all

definition is_ok :: "'a res \<Rightarrow> bool" where
  "is_ok r = (case r of Inl _ \<Rightarrow> False | Inr _ \<Rightarrow> True)"

lemma is_ok_simps [simp]: "is_ok (Inr x)" "\<not> is_ok (Inl e)"
  by (simp_all add: is_ok_def)

text \<open>Evaluate a list of fallible computations left to right, stopping at the first raise
  (a comprehension or \<^verbatim>\<open>b"".join\<close> over calls that may raise).\<close>

fun map_res :: "('a \<Rightarrow> 'b res) \<Rightarrow> 'a list \<Rightarrow> 'b list res" where
  "map_res f [] = Inr []"
| "map_res f (x # xs) = bind_res (f x) (\<lambda>y. bind_res (map_res f xs) (\<lambda>ys. Inr (y # ys)))"

lemma map_res_Ok_length: "map_res f xs = Inr ys \<Longrightarrow> length ys = length xs"
  by (induction xs arbitrary: ys) (auto simp: res_simps)

lemma map_res_Ok_iff: "map_res f xs = Inr ys \<longleftrightarrow> list_all2 (\<lambda>x y. f x = Inr y) xs ys"
  by (induction xs arbitrary: ys) (auto simp: res_simps list_all2_Cons1)

lemma map_res_all_Ok:
  "(\<And>x. x \<in> set xs \<Longrightarrow> f x = Inr (g x)) \<Longrightarrow> map_res f xs = Inr (map g xs)"
  by (induction xs) simp_all

section \<open>Octet strings and integers\<close>

text \<open>\<open>int.from_bytes(b, "little")\<close>\<close>

fun le_dec :: "bytes \<Rightarrow> nat" where
  "le_dec [] = 0"
| "le_dec (b # bs) = unat b + 256 * le_dec bs"

text \<open>The \<open>n\<close> octets of \<open>x\<close>, least significant first, for \<open>x\<close> in range.\<close>

fun le_enc :: "nat \<Rightarrow> nat \<Rightarrow> bytes" where
  "le_enc 0 x = []"
| "le_enc (Suc n) x = word_of_nat (x mod 256) # le_enc n (x div 256)"

text \<open>\<open>int(x).to_bytes(n, "little")\<close>: raises OverflowError outside \<open>0 \<le> x < 256 ^ n\<close>.\<close>

definition to_bytes :: "int \<Rightarrow> nat \<Rightarrow> bytes res" where
  "to_bytes x n = (if 0 \<le> x \<and> x < 256 ^ n then Inr (le_enc n (nat x)) else Inl OverflowError)"

lemma length_le_enc [simp, bytes_simps]: "length (le_enc n x) = n"
  by (induction n arbitrary: x) simp_all

lemma le_dec_bound: "le_dec bs < 256 ^ length bs"
proof (induction bs)
  case Nil
  then show ?case by simp
next
  case (Cons b bs)
  have "unat b < 256"
    using unsigned_less [of b] by simp
  moreover from Cons.IH have "Suc (le_dec bs) \<le> 256 ^ length bs"
    by simp
  ultimately show ?case
    by simp
qed

lemma unat_byte_mod: "unat (word_of_nat (x mod 256) :: byte) = x mod 256"
  by (simp add: unat_of_nat)

lemma unat_byte_id: "n < 256 \<Longrightarrow> unat (word_of_nat n :: byte) = n"
  by (simp add: unat_of_nat)

lemma le_dec_le_enc [bytes_simps]: "x < 256 ^ n \<Longrightarrow> le_dec (le_enc n x) = x"
proof (induction n arbitrary: x)
  case 0
  then show ?case by simp
next
  case (Suc n)
  then have "x div 256 < 256 ^ n"
    by (simp add: less_mult_imp_div_less mult.commute)
  with Suc.IH have "le_dec (le_enc n (x div 256)) = x div 256"
    by blast
  then show ?case
    by (simp only: le_enc.simps le_dec.simps unat_byte_mod) simp
qed

lemma le_enc_le_dec [bytes_simps]: "length bs = n \<Longrightarrow> le_enc n (le_dec bs) = bs"
proof (induction bs arbitrary: n)
  case Nil
  then show ?case by simp
next
  case (Cons b bs)
  obtain m where n: "n = Suc m" "length bs = m"
    using Cons.prems by (cases n) auto
  have lt: "unat b < 256"
    using unsigned_less [of b] by simp
  have mod: "(unat b + 256 * le_dec bs) mod 256 = unat b"
    using lt by (metis mod_less mod_mult_self2)
  have dv: "(unat b + 256 * le_dec bs) div 256 = le_dec bs"
    using lt by simp
  show ?case
    using Cons.IH [OF n(2)] by (simp only: n le_dec.simps le_enc.simps mod dv) simp
qed

lemma le_dec_inj: "length xs = length ys \<Longrightarrow> le_dec xs = le_dec ys \<Longrightarrow> xs = ys"
  by (metis le_enc_le_dec)

lemma to_bytes_length: "to_bytes x n = Inr bs \<Longrightarrow> length bs = n"
  by (auto simp: to_bytes_def split: if_splits)

lemma to_bytes_from_bytes: "to_bytes x n = Inr bs \<Longrightarrow> int (le_dec bs) = x"
  by (auto simp: to_bytes_def le_dec_le_enc nat_less_iff split: if_splits)

lemma to_bytes_ok: "0 \<le> x \<Longrightarrow> x < 256 ^ n \<Longrightarrow> to_bytes x n = Inr (le_enc n (nat x))"
  by (simp add: to_bytes_def)

lemma to_bytes_eq_Ok [bytes_simps]:
  "to_bytes x n = Inr bs \<longleftrightarrow> 0 \<le> x \<and> x < 256 ^ n \<and> bs = le_enc n (nat x)"
  by (auto simp: to_bytes_def)

text \<open>A Python slice \<open>b[i:j]\<close> with non-negative bounds: out-of-range bounds are clipped.\<close>

definition slice :: "'a list \<Rightarrow> nat \<Rightarrow> nat \<Rightarrow> 'a list" where
  "slice xs i j = take (j - i) (drop i xs)"

lemma length_slice: "j \<le> length xs \<Longrightarrow> i \<le> j \<Longrightarrow> length (slice xs i j) = j - i"
  by (simp add: slice_def)

lemma slice_append_mid [simp]:
  "slice (xs @ ys @ zs) (length xs) (length xs + length ys) = ys"
  by (simp add: slice_def)

text \<open>The octets of an ASCII literal, \<open>b"..."\<close> in the source.\<close>

definition ascii :: "string \<Rightarrow> bytes" where
  "ascii s = map (\<lambda>c. word_of_nat (of_char c)) s"

lemma length_ascii [simp, bytes_simps]: "length (ascii s) = length s"
  by (simp add: ascii_def)

section \<open>Lists\<close>

text \<open>\<open>sorted(xs, key=f)\<close> is the library's \<open>sort_key\<close>: both are stable.\<close>

lemma sum_list_filter_le:
  fixes f :: "'a \<Rightarrow> int"
  assumes "\<And>x. x \<in> set xs \<Longrightarrow> 0 \<le> f x" and "\<And>x. x \<in> set xs \<Longrightarrow> P x \<Longrightarrow> Q x"
  shows "sum_list (map f (filter P xs)) \<le> sum_list (map f (filter Q xs))"
  using assms by (induction xs) fastforce+

lemma sum_list_filter_nonneg:
  fixes f :: "'a \<Rightarrow> int"
  assumes "\<And>x. x \<in> set xs \<Longrightarrow> 0 \<le> f x"
  shows "0 \<le> sum_list (map f (filter P xs))"
  using assms by (induction xs) auto

lemma sum_list_map_sort_key [simp]:
  fixes f :: "'a \<Rightarrow> 'b :: comm_monoid_add" and k :: "'a \<Rightarrow> 'c :: linorder"
  shows "sum_list (map f (sort_key k xs)) = sum_list (map f xs)"
  by (metis mset_map mset_sort sum_mset_sum_list)

lemma distinct_map_filter_disjoint:
  assumes "distinct (map f xs)" and "x \<in> set xs" and "y \<in> set xs" and "f x = f y"
  shows "x = y"
  using assms by (metis distinct_map inj_onD)

lemma Min_eq_first_sorted: "sorted xs \<Longrightarrow> xs \<noteq> [] \<Longrightarrow> Min (set xs) = hd xs"
  by (cases xs) (auto intro: Min_eqI)

lemma filter_partition_mset: "mset xs = mset (filter P xs) + mset (filter (\<lambda>x. \<not> P x) xs)"
  by (induction xs) simp_all

lemma sorted_take_filter:
  assumes "sorted (map k xs)" and "distinct (map k xs)" and "i < length xs"
  shows "take i xs = filter (\<lambda>x. k x < k (xs ! i)) xs"
  using assms
proof (induction xs arbitrary: i)
  case (Cons x xs)
  show ?case
  proof (cases i)
    case 0
    have "\<not> k y < k x" if "y \<in> set (x # xs)" for y
      using Cons.prems(1) that by auto
    then have none: "filter (\<lambda>y. k y < k x) (x # xs) = []"
      by (simp only: filter_empty_conv) blast
    show ?thesis using none by (simp add: 0)
  next
    case (Suc j)
    then have "k x < k (xs ! j)"
      using Cons.prems by (auto simp: less_le)
    then show ?thesis
      using Suc Cons by simp
  qed
qed simp

lemma sum_list_filter_vanish:
  fixes g :: "'a \<Rightarrow> int"
  assumes "\<And>x. x \<in> set xs \<Longrightarrow> Q x \<Longrightarrow> P x"
    and "\<And>x. x \<in> set xs \<Longrightarrow> P x \<Longrightarrow> \<not> Q x \<Longrightarrow> g x = 0"
  shows "sum_list (map g (filter P xs)) = sum_list (map g (filter Q xs))"
  using assms by (induction xs) auto

lemma distinct_subseteq_mset:
  assumes "mset xs \<subseteq># mset ys" and "distinct ys"
  shows "distinct xs"
  unfolding distinct_count_atmost_1
proof
  fix a
  have "count (mset xs) a \<le> count (mset ys) a"
    using assms(1) by (rule mset_subset_eq_count)
  also have "\<dots> \<le> 1"
    using assms(2) by (simp add: distinct_count_atmost_1)
  finally show "count (mset xs) a = (if a \<in> set xs then 1 else 0)"
    by (auto simp: le_Suc_eq count_mset_0_iff)
qed

text \<open>A distinct selection from a list and what the selection leaves make up the list.\<close>

lemma mset_select_rest:
  assumes "distinct xs" and "distinct ys" and "set ys \<subseteq> set xs"
  shows "mset xs = mset ys + mset (filter (\<lambda>x. x \<notin> set ys) xs)"
proof -
  have *: "mset ys = mset (filter (\<lambda>x. x \<in> set ys) xs)"
    using assms by (intro set_eq_iff_mset_eq_distinct [THEN iffD1]) auto
  show ?thesis by (subst *) (rule filter_partition_mset)
qed

lemma mset_subset_distinct:
  assumes "distinct xs" and "distinct ys" and "set xs \<subseteq> set ys"
  shows "mset xs \<subseteq># mset ys"
  using subset_imp_msubset_mset_set [OF assms(3)] assms(1,2) by (simp add: mset_set_set)

lemma distinct_refine:
  assumes "distinct (R @ P @ K @ E @ D)" and "distinct (a @ b)" and "distinct r" and "distinct q"
    and "set r \<subseteq> set R" and "set (a @ b) \<subseteq> set R" and "set r \<inter> set (a @ b) = {}" and "set q \<subseteq> set P"
  shows "distinct (r @ q @ (K @ a) @ (E @ b) @ D)"
proof (rule distinct_subseteq_mset [OF _ assms(1)])
  have "mset (r @ a @ b) \<subseteq># mset R"
    using assms(1,2,3,5,6,7) by (intro mset_subset_distinct) simp_all
  moreover have "mset q \<subseteq># mset P"
    using assms(1,4,8) by (intro mset_subset_distinct) simp_all
  ultimately have "mset (r @ a @ b) + mset q + mset (K @ E @ D) \<subseteq># mset R + mset P + mset (K @ E @ D)"
    by (intro subset_mset.add_mono subset_mset.order_refl)
  then show "mset (r @ q @ (K @ a) @ (E @ b) @ D) \<subseteq># mset (R @ P @ K @ E @ D)"
    by (simp only: mset_append ac_simps)
qed

end
