(* ===== verification/Blake2.thy ===== *)
theory Blake2
  imports Prelude
begin

text \<open>
  \<^verbatim>\<open>hashlib.blake2b\<close> and \<^verbatim>\<open>hashlib.blake2s\<close> with a 32-octet digest and no key, the two hash
  functions of the Python standard library the builder uses (work-package hashes and
  authorizers; commitments and round ids). The definitions follow RFC 7693 over machine words
  and are executable; the library lemma is the digest length.
\<close>

unbundle bit_operations_syntax

section \<open>The two word sizes\<close>

type_synonym w64 = "64 word"
type_synonym w32 = "32 word"

definition blake2b_iv :: "w64 list" where
  "blake2b_iv = [0x6a09e667f3bcc908, 0xbb67ae8584caa73b, 0x3c6ef372fe94f82b, 0xa54ff53a5f1d36f1,
     0x510e527fade682d1, 0x9b05688c2b3e6c1f, 0x1f83d9abfb41bd6b, 0x5be0cd19137e2179]"

definition blake2s_iv :: "w32 list" where
  "blake2s_iv = [0x6a09e667, 0xbb67ae85, 0x3c6ef372, 0xa54ff53a,
     0x510e527f, 0x9b05688c, 0x1f83d9ab, 0x5be0cd19]"

definition sigma :: "nat list list" where
  "sigma =
    [[0, 1, 2, 3, 4, 5, 6, 7, 8, 9, 10, 11, 12, 13, 14, 15],
     [14, 10, 4, 8, 9, 15, 13, 6, 1, 12, 0, 2, 11, 7, 5, 3],
     [11, 8, 12, 0, 5, 2, 15, 13, 10, 14, 3, 6, 7, 1, 9, 4],
     [7, 9, 3, 1, 13, 12, 11, 14, 2, 6, 5, 10, 4, 0, 15, 8],
     [9, 0, 5, 7, 2, 4, 10, 15, 14, 1, 11, 12, 6, 8, 3, 13],
     [2, 12, 6, 10, 0, 11, 8, 3, 4, 13, 7, 5, 15, 14, 1, 9],
     [12, 5, 1, 15, 14, 13, 4, 10, 0, 7, 6, 3, 9, 2, 8, 11],
     [13, 11, 7, 14, 12, 1, 3, 9, 5, 0, 15, 4, 8, 6, 2, 10],
     [6, 15, 14, 9, 11, 3, 0, 8, 12, 2, 13, 7, 1, 4, 10, 5],
     [10, 2, 8, 4, 7, 6, 1, 5, 15, 11, 9, 14, 3, 12, 13, 0]]"

text \<open>The mixing of one column or diagonal; \<open>r\<close> are the rotation counts of the word size.\<close>

definition mix :: "nat \<times> nat \<times> nat \<times> nat \<Rightarrow> 'w::len word list \<Rightarrow> nat \<times> nat \<times> nat \<times> nat
    \<Rightarrow> 'w word \<Rightarrow> 'w word \<Rightarrow> 'w word list" where
  "mix r v ix x y = (case r of (r1, r2, r3, r4) \<Rightarrow> case ix of (a, b, c, d) \<Rightarrow>
     let va = v ! a + v ! b + x;
         vd = word_rotr r1 (v ! d XOR va);
         vc = v ! c + vd;
         vb = word_rotr r2 (v ! b XOR vc);
         va = va + vb + y;
         vd = word_rotr r3 (vd XOR va);
         vc = vc + vd;
         vb = word_rotr r4 (vb XOR vc)
     in v[a := va, b := vb, c := vc, d := vd])"

definition mix_order :: "(nat \<times> nat \<times> nat \<times> nat) list" where
  "mix_order = [(0, 4, 8, 12), (1, 5, 9, 13), (2, 6, 10, 14), (3, 7, 11, 15),
     (0, 5, 10, 15), (1, 6, 11, 12), (2, 7, 8, 13), (3, 4, 9, 14)]"

definition blake_round :: "nat \<times> nat \<times> nat \<times> nat \<Rightarrow> 'w::len word list \<Rightarrow> nat \<Rightarrow> 'w word list
    \<Rightarrow> 'w word list" where
  "blake_round r m i v =
     fold (\<lambda>(j, ix) v. mix r v ix (m ! (sigma ! (i mod 10) ! (2 * j))) (m ! (sigma ! (i mod 10) ! (2 * j + 1))))
       (enumerate 0 mix_order) v"

text \<open>The compression function: \<open>t\<close> counts the octets so far, \<open>final\<close> marks the last block.\<close>

definition compress :: "nat \<times> nat \<times> nat \<times> nat \<Rightarrow> nat \<Rightarrow> 'w::len word list \<Rightarrow> 'w word list
    \<Rightarrow> 'w word list \<Rightarrow> nat \<Rightarrow> bool \<Rightarrow> 'w word list" where
  "compress r rounds iv h m t final =
     (let v = h @ iv;
          v = v[12 := v ! 12 XOR word_of_nat t,
                13 := v ! 13 XOR word_of_nat (t div 2 ^ LENGTH('w)),
                14 := (if final then NOT (v ! 14) else v ! 14)];
          v = fold (blake_round r m) [0..<rounds] v
      in map (\<lambda>i. h ! i XOR v ! i XOR v ! (i + 8)) [0..<8])"

text \<open>The 16 words of a block, zero-padded.\<close>

definition block_words :: "nat \<Rightarrow> bytes \<Rightarrow> 'w::len word list" where
  "block_words n b = map (\<lambda>i. word_of_nat (le_dec (slice (b @ replicate (16 * n - length b) 0) (n * i) (n * i + n)))) [0..<16]"

fun blake_blocks :: "nat \<times> nat \<times> nat \<times> nat \<Rightarrow> nat \<Rightarrow> nat \<Rightarrow> 'w::len word list \<Rightarrow> 'w word list
    \<Rightarrow> nat \<Rightarrow> bytes list \<Rightarrow> 'w word list" where
  "blake_blocks r rounds n iv h t [] = h"
| "blake_blocks r rounds n iv h t [b] = compress r rounds iv h (block_words n b) (t + length b) True"
| "blake_blocks r rounds n iv h t (b # b' # bs) =
     blake_blocks r rounds n iv (compress r rounds iv h (block_words n b) (t + 16 * n) False) (t + 16 * n) (b' # bs)"

function chunks :: "nat \<Rightarrow> bytes \<Rightarrow> bytes list" where
  "chunks n xs = (if n = 0 \<or> length xs \<le> n then [xs] else take n xs # chunks n (drop n xs))"
  by pat_completeness auto
termination by (relation "measure (\<lambda>(n, xs). length xs)") auto

declare chunks.simps [simp del]

definition blake2 :: "nat \<times> nat \<times> nat \<times> nat \<Rightarrow> nat \<Rightarrow> nat \<Rightarrow> 'w::len word list \<Rightarrow> bytes \<Rightarrow> bytes" where
  "blake2 r rounds n iv data =
     (let h = iv[0 := iv ! 0 XOR 0x01010020]
      in take 32 (concat (map (\<lambda>w. le_enc n (unat w)) (blake_blocks r rounds n iv h 0 (chunks (16 * n) data)))))"

definition blake2b256 :: "bytes \<Rightarrow> bytes" where
  "blake2b256 data = blake2 (32, 24, 16, 63) 12 8 blake2b_iv data"

definition blake2s256 :: "bytes \<Rightarrow> bytes" where
  "blake2s256 data = blake2 (16, 12, 8, 7) 10 4 blake2s_iv data"

section \<open>Digest length\<close>

lemma length_compress [simp]: "length (compress r rounds iv h m t final) = 8"
  by (simp add: compress_def Let_def)

lemma length_blake_blocks:
  "bs \<noteq> [] \<Longrightarrow> length (blake_blocks r rounds n iv h t bs) = 8"
  by (induction r rounds n iv h t bs rule: blake_blocks.induct) simp_all

lemma chunks_nonempty: "chunks n xs \<noteq> []"
  by (subst chunks.simps) simp

lemma length_concat_le_enc: "length (concat (map (\<lambda>w. le_enc n (unat w)) ws)) = n * length ws"
  by (induction ws) simp_all

lemma length_blake2: "4 \<le> n \<Longrightarrow> length (blake2 r rounds n iv data) = 32"
  by (simp add: blake2_def Let_def length_concat_le_enc length_blake_blocks chunks_nonempty min_def)

lemma length_blake2b256 [simp, bytes_simps]: "length (blake2b256 data) = 32"
  by (simp add: blake2b256_def length_blake2)

lemma length_blake2s256 [simp, bytes_simps]: "length (blake2s256 data) = 32"
  by (simp add: blake2s256_def length_blake2)

end
