(* ===== verification/Work_Package.thy ===== *)
theory Work_Package
  imports Blake2 "HOL-Library.List_Lexorder"
begin

text \<open>
  \<^verbatim>\<open>src/offchain/workpackage.py\<close>: the types of a GP 0.8.0 work-package and their codec. A \<^verbatim>\<open>_Reader\<close> is
  represented by the octets it has not read yet (\<^verbatim>\<open>buf[i:]\<close>), so a read is a function from octets to a
  value and the remaining octets. Encoders and decoders raise as the code does; the messages of the
  ValueErrors are not kept apart. The interface \<open>codec\<close> is the round-trip law every type obeys; sequences
  of a codec are again one.
\<close>

section \<open>Naturals, blobs and the reader\<close>

abbreviation bad :: "'a res" where "bad \<equiv> Inl (ValueError [])"

definition nat_width :: "nat \<Rightarrow> nat option" where
  "nat_width x = find (\<lambda>l. x < 2 ^ (7 * (l + 1))) [0..<8]"

definition enc_nat :: "int \<Rightarrow> bytes res" where
  "enc_nat x =
     (if \<not> (0 \<le> x \<and> x < 2 ^ 64) then bad
      else if x = 0 then Inr [0]
      else case nat_width (nat x) of
          Some l \<Rightarrow> Inr (word_of_nat (256 - 2 ^ (8 - l) + nat x div 2 ^ (8 * l)) # le_enc l (nat x mod 2 ^ (8 * l)))
        | None \<Rightarrow> Inr (0xff # le_enc 8 (nat x)))"

definition lead_ones :: "byte \<Rightarrow> nat" where
  "lead_ones b = (if b = 0xff then 8 else the (find (\<lambda>n. unat b div 2 ^ (7 - n) mod 2 = 0) [0..<8]))"

definition dec_nat :: "bytes \<Rightarrow> (int \<times> bytes) res" where
  "dec_nat buf = (case buf of [] \<Rightarrow> bad
     | b # bs \<Rightarrow>
       let l = lead_ones b in
       if length bs < l then bad
       else let rest = le_dec (take l bs);
                x = int (if l = 8 then rest else rest + unat b mod 2 ^ (7 - l) * 2 ^ (8 * l))
            in if enc_nat x \<noteq> Inr (b # take l bs) then bad else Inr (x, drop l bs))"

definition var :: "bytes \<Rightarrow> bytes res" where
  "var blob = bind_res (enc_nat (int (length blob))) (\<lambda>p. Inr (p @ blob))"

definition hash32 :: "bytes \<Rightarrow> bytes res" where
  "hash32 h = (if length h \<noteq> 32 then bad else Inr h)"

type_synonym 'a reader = "bytes \<Rightarrow> ('a \<times> bytes) res"

definition bind_rd :: "'a reader \<Rightarrow> ('a \<Rightarrow> 'b reader) \<Rightarrow> 'b reader" where
  "bind_rd m f = (\<lambda>buf. bind_res (m buf) (\<lambda>(x, rest). f x rest))"

definition ret_rd :: "'a \<Rightarrow> 'a reader" where
  "ret_rd x = (\<lambda>buf. Inr (x, buf))"

definition rd_take :: "nat \<Rightarrow> bytes reader" where
  "rd_take n buf = (if length buf < n then bad else Inr (take n buf, drop n buf))"

definition rd_u :: "nat \<Rightarrow> int reader" where
  "rd_u n = bind_rd (rd_take n) (\<lambda>b. ret_rd (int (le_dec b)))"

definition rd_blob :: "bytes reader" where
  "rd_blob = bind_rd dec_nat (\<lambda>n. rd_take (nat n))"

fun rd_rep :: "'a reader \<Rightarrow> nat \<Rightarrow> 'a list reader" where
  "rd_rep item 0 = ret_rd []"
| "rd_rep item (Suc n) = bind_rd item (\<lambda>x. bind_rd (rd_rep item n) (\<lambda>xs. ret_rd (x # xs)))"

definition rd_seq :: "'a reader \<Rightarrow> 'a list reader" where
  "rd_seq item = bind_rd dec_nat (\<lambda>n. rd_rep item (nat n))"

definition rd_end :: "unit reader" where
  "rd_end buf = (if buf \<noteq> [] then bad else Inr ((), buf))"

text \<open>Concatenate the octets of fallible parts, left to right; a length-prefixed sequence.\<close>

fun cat :: "bytes res list \<Rightarrow> bytes res" where
  "cat [] = Inr []"
| "cat (p # ps) = bind_res p (\<lambda>b. bind_res (cat ps) (\<lambda>bs. Inr (b @ bs)))"

definition enc_seq :: "('a \<Rightarrow> bytes res) \<Rightarrow> 'a list \<Rightarrow> bytes res" where
  "enc_seq enc xs = cat [enc_nat (int (length xs)), cat (map enc xs)]"

section \<open>The types\<close>

record refine_context =
  rc_anchor :: bytes
  rc_anchor_slot :: int
  rc_state_root :: bytes
  rc_beefy_root :: bytes
  rc_lookup_anchor :: bytes
  rc_lookup_anchor_slot :: int
  rc_lookup_anchor_state_root :: bytes
  rc_prerequisites :: "bytes list"

definition enc_context :: "refine_context \<Rightarrow> bytes res" where
  "enc_context c =
     bind_res (map_res hash32 (rc_prerequisites c)) (\<lambda>ps. let prereq = sort_key (map unat) ps in
       cat [hash32 (rc_anchor c), to_bytes (rc_anchor_slot c) 4, hash32 (rc_state_root c),
            hash32 (rc_beefy_root c), hash32 (rc_lookup_anchor c), to_bytes (rc_lookup_anchor_slot c) 4,
            hash32 (rc_lookup_anchor_state_root c), enc_nat (int (length prereq)), Inr (concat prereq)])"

definition read_context :: "refine_context reader" where
  "read_context =
     bind_rd (rd_take 32) (\<lambda>a. bind_rd (rd_u 4) (\<lambda>t. bind_rd (rd_take 32) (\<lambda>s.
     bind_rd (rd_take 32) (\<lambda>b. bind_rd (rd_take 32) (\<lambda>la. bind_rd (rd_u 4) (\<lambda>lt.
     bind_rd (rd_take 32) (\<lambda>ls. bind_rd (rd_seq (rd_take 32)) (\<lambda>ps.
     ret_rd \<lparr>rc_anchor = a, rc_anchor_slot = t, rc_state_root = s, rc_beefy_root = b, rc_lookup_anchor = la,
       rc_lookup_anchor_slot = lt, rc_lookup_anchor_state_root = ls, rc_prerequisites = ps\<rparr>))))))))"

record import_ref =
  ir_root :: bytes
  ir_index :: int
  ir_by_package :: bool

definition enc_import :: "import_ref \<Rightarrow> bytes res" where
  "enc_import r =
     (if \<not> (0 \<le> ir_index r \<and> ir_index r < 2 ^ 15) then bad
      else cat [hash32 (ir_root r), to_bytes (ir_index r + (if ir_by_package r then 2 ^ 15 else 0)) 2])"

definition read_import :: "import_ref reader" where
  "read_import = bind_rd (rd_take 32) (\<lambda>root. bind_rd (rd_u 2) (\<lambda>i.
     ret_rd \<lparr>ir_root = root, ir_index = i mod 2 ^ 15, ir_by_package = (i div 2 ^ 15 \<noteq> 0)\<rparr>))"

record work_item =
  wi_service :: int
  wi_code_hash :: bytes
  wi_payload :: bytes
  wi_refine_gas :: int
  wi_accumulate_gas :: int
  wi_export_count :: int
  wi_imports :: "import_ref list"
  wi_extrinsics :: "(bytes \<times> int) list"

definition enc_extrinsic :: "bytes \<times> int \<Rightarrow> bytes res" where
  "enc_extrinsic x = cat [hash32 (fst x), to_bytes (snd x) 4]"

definition read_extrinsic :: "(bytes \<times> int) reader" where
  "read_extrinsic = bind_rd (rd_take 32) (\<lambda>h. bind_rd (rd_u 4) (\<lambda>n. ret_rd (h, n)))"

definition enc_item :: "work_item \<Rightarrow> bytes res" where
  "enc_item w =
     cat [to_bytes (wi_service w) 4, hash32 (wi_code_hash w), to_bytes (wi_refine_gas w) 8,
          to_bytes (wi_accumulate_gas w) 8, to_bytes (wi_export_count w) 2, var (wi_payload w),
          enc_seq enc_import (wi_imports w), enc_seq enc_extrinsic (wi_extrinsics w)]"

definition read_item :: "work_item reader" where
  "read_item =
     bind_rd (rd_u 4) (\<lambda>s. bind_rd (rd_take 32) (\<lambda>h. bind_rd (rd_u 8) (\<lambda>rg. bind_rd (rd_u 8) (\<lambda>ag.
     bind_rd (rd_u 2) (\<lambda>e. bind_rd rd_blob (\<lambda>p. bind_rd (rd_seq read_import) (\<lambda>is.
     bind_rd (rd_seq read_extrinsic) (\<lambda>xs.
     ret_rd \<lparr>wi_service = s, wi_code_hash = h, wi_payload = p, wi_refine_gas = rg, wi_accumulate_gas = ag,
       wi_export_count = e, wi_imports = is, wi_extrinsics = xs\<rparr>))))))))"

record authorizer =
  au_host :: int
  au_code_hash :: bytes
  au_config :: bytes
  au_token :: bytes

definition authorizer_hash :: "authorizer \<Rightarrow> bytes res" where
  "authorizer_hash a = bind_res (hash32 (au_code_hash a)) (\<lambda>h. Inr (blake2b256 (h @ au_config a)))"

record work_package =
  wp_auth_code_host :: int
  wp_auth_code_hash :: bytes
  wp_context :: refine_context
  wp_items :: "work_item list"
  wp_authorization :: bytes
  wp_authorizer_config :: bytes

definition build_package :: "authorizer \<Rightarrow> refine_context \<Rightarrow> work_item list \<Rightarrow> work_package" where
  "build_package a ctx items = \<lparr>wp_auth_code_host = au_host a, wp_auth_code_hash = au_code_hash a,
     wp_context = ctx, wp_items = items, wp_authorization = au_token a, wp_authorizer_config = au_config a\<rparr>"

definition enc_package :: "work_package \<Rightarrow> bytes res" where
  "enc_package p =
     (if wp_items p = [] then bad
      else cat [to_bytes (wp_auth_code_host p) 4, hash32 (wp_auth_code_hash p), enc_context (wp_context p),
                var (wp_authorization p), var (wp_authorizer_config p), enc_seq enc_item (wp_items p)])"

definition package_authorizer :: "work_package \<Rightarrow> bytes" where
  "package_authorizer p = blake2b256 (wp_auth_code_hash p @ wp_authorizer_config p)"

definition package_hash :: "work_package \<Rightarrow> bytes res" where
  "package_hash p = bind_res (enc_package p) (\<lambda>b. Inr (blake2b256 b))"

definition dec_package :: "bytes \<Rightarrow> work_package res" where
  "dec_package data = bind_res
     (bind_rd (rd_u 4) (\<lambda>host. bind_rd (rd_take 32) (\<lambda>code_hash. bind_rd read_context (\<lambda>ctx.
      bind_rd rd_blob (\<lambda>token. bind_rd rd_blob (\<lambda>config. bind_rd (rd_seq read_item) (\<lambda>items.
      bind_rd rd_end (\<lambda>_.
      ret_rd \<lparr>wp_auth_code_host = host, wp_auth_code_hash = code_hash, wp_context = ctx, wp_items = items,
        wp_authorization = token, wp_authorizer_config = config\<rparr>))))))) data)
     (\<lambda>(p, _). Inr p)"

section \<open>Naturals round-trip\<close>

lemma lead_ones_table:
  "list_all (\<lambda>l. list_all (\<lambda>h. lead_ones (word_of_nat (256 - 2 ^ (8 - l) + h)) = l) [0..<2 ^ (7 - l)]) [0..<8]"
  by code_simp

lemma lead_ones_prefix:
  "l < 8 \<Longrightarrow> h < 2 ^ (7 - l) \<Longrightarrow> lead_ones (word_of_nat (256 - 2 ^ (8 - l) + h)) = l"
  using lead_ones_table by (simp add: list_all_iff)

lemma pow_split: "l < 8 \<Longrightarrow> (2::nat) ^ (7 * (l + 1)) = 2 ^ (7 - l) * 2 ^ (8 * l)"
  by (simp flip: power_add)

lemma prefix_bound:
  assumes "l < 8" and "h < 2 ^ (7 - l)"
  shows "256 - 2 ^ (8 - l) + h < (256::nat)" and "(256 - 2 ^ (8 - l) + h) mod 2 ^ (7 - l) = (h::nat)"
proof -
  define m :: nat where "m = 2 ^ (7 - l)"
  define k :: nat where "k = 2 ^ l"
  have "8 - l = Suc (7 - l)" using assms(1) by simp
  then have p: "(2::nat) ^ (8 - l) = 2 * m" by (simp add: m_def)
  have mk: "(256::nat) = 2 * m * k" "k \<ge> 1" "h < m"
    using assms by (simp_all add: m_def k_def flip: power_add)
  have le: "2 * m \<le> 256" unfolding mk(1) using mk(2) by simp
  then show "256 - 2 ^ (8 - l) + h < (256::nat)" using mk(3) unfolding p by linarith
  have "256 - 2 * m = m * (2 * k - 2)" unfolding mk(1) by (simp add: algebra_simps)
  then have "(256 - 2 * m + h) mod m = h" using mk(3) by simp
  then show "(256 - 2 ^ (8 - l) + h) mod 2 ^ (7 - l) = (h::nat)" unfolding p m_def .
qed

lemma nat_widthD:
  assumes "nat_width n = Some l"
  shows "l < 8" and "n < 2 ^ (7 * (l + 1))"
  using assms by (auto simp: nat_width_def find_Some_iff)

lemma dec_nat_enc_nat [bytes_simps]:
  assumes "enc_nat x = Inr b"
  shows "dec_nat (b @ rest) = Inr (x, rest)"
proof -
  have rng: "0 \<le> x" "x < 2 ^ 64" using assms by (auto simp: enc_nat_def split: if_splits)
  consider "x = 0" "b = [0]"
    | l where "nat_width (nat x) = Some l"
        "b = word_of_nat (256 - 2 ^ (8 - l) + nat x div 2 ^ (8 * l)) # le_enc l (nat x mod 2 ^ (8 * l))"
    | "b = 0xff # le_enc 8 (nat x)"
    using assms rng by (auto simp: enc_nat_def split: if_splits option.splits)
  then show ?thesis
  proof cases
    case 1
    have "lead_ones 0 = 0" by code_simp
    with 1 assms show ?thesis by (simp add: dec_nat_def)
  next
    case 2
    note w = nat_widthD [OF 2(1)]
    let ?hi = "nat x div 2 ^ (8 * l)" and ?lo = "nat x mod 2 ^ (8 * l)"
    have hi: "?hi < 2 ^ (7 - l)"
      using w(2) unfolding pow_split [OF w(1)] by (rule less_mult_imp_div_less)
    define P where "P = 256 - 2 ^ (8 - l) + ?hi"
    have P: "unat (word_of_nat P :: byte) = P" "P mod 2 ^ (7 - l) = ?hi" "lead_ones (word_of_nat P) = l"
      unfolding P_def using prefix_bound [OF w(1) hi] lead_ones_prefix [OF w(1) hi]
      by (simp_all only: unat_byte_id)
    have lo: "le_dec (le_enc l ?lo) = ?lo"
      by (rule le_dec_le_enc) (simp add: power_mult)
    have "int (?lo + ?hi * 2 ^ (8 * l)) = int (nat x)" by (simp only: mod_div_mult_eq)
    then have "int ?lo + int ?hi * 2 ^ (8 * l) = x" using rng(1) by simp
    then show ?thesis
      using assms w(1) rng unfolding 2(2) P_def [symmetric] by (simp add: dec_nat_def Let_def P lo)
  next
    case 3
    have "lead_ones 0xff = 8" by (simp add: lead_ones_def)
    moreover have "le_dec (le_enc 8 (nat x)) = nat x"
      using rng by (intro le_dec_le_enc) (simp add: nat_less_iff)
    ultimately show ?thesis
      using assms rng unfolding 3 by (simp add: dec_nat_def Let_def)
  qed
qed

lemma dec_nat_canonical:
  assumes "dec_nat buf = Inr (x, rest)"
  shows "\<exists>b. enc_nat x = Inr b \<and> buf = b @ rest"
  using assms by (auto simp: dec_nat_def Let_def split: list.splits if_splits)

section \<open>The codec interface\<close>

text \<open>Reading what was encoded gives the value (in normal form) back, whatever follows it.\<close>

locale codec =
  fixes enc :: "'a \<Rightarrow> bytes res" and dec :: "'a reader" and norm :: "'a \<Rightarrow> 'a"
  assumes round_trip: "enc x = Inr b \<Longrightarrow> dec (b @ rest) = Inr (norm x, rest)"
begin

lemma rep_round_trip:
  "cat (map enc xs) = Inr b \<Longrightarrow> rd_rep dec (length xs) (b @ rest) = Inr (map norm xs, rest)"
  by (induction xs arbitrary: b)
    (auto simp: bind_rd_def ret_rd_def res_simps round_trip)

lemma seq_round_trip:
  assumes "enc_seq enc xs = Inr b"
  shows "rd_seq dec (b @ rest) = Inr (map norm xs, rest)"
proof -
  obtain n c where nc: "enc_nat (int (length xs)) = Inr n" "cat (map enc xs) = Inr c" "b = n @ c"
    using assms by (auto simp: enc_seq_def res_simps)
  show ?thesis
    using dec_nat_enc_nat [OF nc(1), of "c @ rest"] rep_round_trip [OF nc(2), of rest]
    by (simp add: nc(3) rd_seq_def bind_rd_def)
qed

text \<open>No encoding is a proper prefix of another value's: equal octets, equal normal forms.\<close>

lemma prefix_free:
  assumes "enc x = Inr a" and "enc y = Inr b" and "a @ r = b @ s"
  shows "norm x = norm y \<and> r = s"
  using round_trip [OF assms(1), of r] round_trip [OF assms(2), of s] assms(3) by simp

end

lemma rd_take_append [bytes_simps]: "length b = n \<Longrightarrow> rd_take n (b @ rest) = Inr (b, rest)"
  by (auto simp: rd_take_def)

lemma hash32_Ok [bytes_simps]: "hash32 h = Inr b \<longleftrightarrow> b = h \<and> length h = 32"
  by (auto simp: hash32_def)

lemma rd_u_to_bytes [bytes_simps]: "to_bytes x n = Inr b \<Longrightarrow> rd_u n (b @ rest) = Inr (x, rest)"
  using to_bytes_length [of x n b] to_bytes_from_bytes [of x n b]
  by (simp add: rd_u_def bind_rd_def ret_rd_def rd_take_append)

lemma rd_blob_var [bytes_simps]: "var x = Inr b \<Longrightarrow> rd_blob (b @ rest) = Inr (x, rest)"
  by (auto simp: var_def rd_blob_def bind_rd_def res_simps dec_nat_enc_nat rd_take_append)

text \<open>One step of a reader against one part of an encoding.\<close>

lemma bind_rd_step: "m (b @ rest) = Inr (x, rest) \<Longrightarrow> bind_rd m f (b @ rest) = f x rest"
  by (simp add: bind_rd_def)

lemma cat_Cons_Ok [res_simps]: "cat (p # ps) = Inr b \<longleftrightarrow> (\<exists>x xs. p = Inr x \<and> cat ps = Inr xs \<and> b = x @ xs)"
  by (auto simp: res_simps)

lemma cat_Nil_Ok [res_simps]: "cat [] = Inr b \<longleftrightarrow> b = []"
  by auto

declare cat.simps [simp del]

interpretation import_codec: codec enc_import read_import "\<lambda>x. x"
proof
  fix r b rest assume e: "enc_import r = Inr b"
  then obtain i where i: "0 \<le> ir_index r" "ir_index r < 2 ^ 15" "length (ir_root r) = 32" "b = ir_root r @ i"
    "to_bytes (ir_index r + (if ir_by_package r then 2 ^ 15 else 0)) 2 = Inr i"
    by (auto simp: enc_import_def res_simps hash32_Ok split: if_splits)
  have "rd_u 2 (i @ rest) = Inr (ir_index r + (if ir_by_package r then 2 ^ 15 else 0), rest)"
    by (rule rd_u_to_bytes [OF i(5)])
  then show "read_import (b @ rest) = Inr (r, rest)"
    using i by (cases "ir_by_package r") (simp_all add: read_import_def bind_rd_def ret_rd_def rd_take_append)
qed

interpretation extrinsic_codec: codec enc_extrinsic read_extrinsic "\<lambda>x. x"
proof
  fix x :: "bytes \<times> int" and b rest assume "enc_extrinsic x = Inr b"
  then show "read_extrinsic (b @ rest) = Inr (x, rest)"
    by (cases x) (auto simp: enc_extrinsic_def read_extrinsic_def res_simps hash32_Ok bind_rd_def ret_rd_def
        rd_take_append rd_u_to_bytes)
qed

interpretation item_codec: codec enc_item read_item "\<lambda>x. x"
proof
  fix w b rest assume "enc_item w = Inr b"
  then show "read_item (b @ rest) = Inr (w, rest)"
    by (auto simp: enc_item_def read_item_def res_simps hash32_Ok bind_rd_def ret_rd_def rd_take_append
        rd_u_to_bytes rd_blob_var import_codec.seq_round_trip extrinsic_codec.seq_round_trip)
qed

text \<open>The prerequisites are a set: their encoding is in order, and the normal form of a context has
  them in order.\<close>

definition norm_context :: "refine_context \<Rightarrow> refine_context" where
  "norm_context c = c\<lparr>rc_prerequisites := sort_key (map unat) (rc_prerequisites c)\<rparr>"

lemma map_res_hash32 [bytes_simps]: "map_res hash32 hs = Inr ps \<longleftrightarrow> ps = hs \<and> (\<forall>h\<in>set hs. length h = 32)"
  by (induction hs arbitrary: ps) (auto simp: res_simps hash32_Ok)

lemma map_res_hash32_if: "map_res hash32 hs = (if \<forall>h\<in>set hs. length h = 32 then Inr hs else bad)"
  by (induction hs) (auto simp: hash32_def)

lemma enc_norm_context: "enc_context (norm_context c) = enc_context c"
  by (simp add: enc_context_def norm_context_def map_res_hash32_if Let_def sort_key_id_if_sorted)

lemma rd_rep_hashes: "\<forall>h\<in>set hs. length h = 32 \<Longrightarrow> rd_rep (rd_take 32) (length hs) (concat hs @ rest) = Inr (hs, rest)"
  by (induction hs) (simp_all add: bind_rd_def ret_rd_def rd_take_append)

interpretation context_codec: codec enc_context read_context norm_context
proof
  fix c b rest assume e: "enc_context c = Inr b"
  let ?ps = "sort_key (map unat) (rc_prerequisites c)"
  have "rd_seq (rd_take 32) (p @ concat ?ps @ rest) = Inr (?ps, rest)"
    if "enc_nat (int (length ?ps)) = Inr p" "\<forall>h\<in>set (rc_prerequisites c). length h = 32" for p
    using that rd_rep_hashes [of ?ps rest] by (simp add: rd_seq_def bind_rd_def dec_nat_enc_nat)
  then show "read_context (b @ rest) = Inr (norm_context c, rest)"
    using e by (auto simp: enc_context_def read_context_def norm_context_def res_simps hash32_Ok map_res_hash32
        Let_def bind_rd_def ret_rd_def rd_take_append rd_u_to_bytes)
qed

lemma dec_enc_package:
  assumes "enc_package p = Inr b"
  shows "dec_package b = Inr (p\<lparr>wp_context := norm_context (wp_context p)\<rparr>)"
proof -
  obtain h c j f w where b: "to_bytes (wp_auth_code_host p) 4 = Inr h" "length (wp_auth_code_hash p) = 32"
    "enc_context (wp_context p) = Inr c" "var (wp_authorization p) = Inr j" "var (wp_authorizer_config p) = Inr f"
    "enc_seq enc_item (wp_items p) = Inr w" "b = h @ wp_auth_code_hash p @ c @ j @ f @ w @ []"
    using assms by (auto simp: enc_package_def res_simps hash32_Ok split: if_splits)
  have "read_context (c @ r) = Inr (norm_context (wp_context p), r)" for r
    by (rule context_codec.round_trip [OF b(3)])
  moreover have "rd_seq read_item (w @ []) = Inr (wp_items p, [])"
    using item_codec.seq_round_trip [OF b(6), of "[]"] by simp
  ultimately show ?thesis
    using b(2) rd_u_to_bytes [OF b(1)] rd_blob_var [OF b(4)] rd_blob_var [OF b(5)]
    unfolding b(7) by (simp add: dec_package_def bind_rd_def ret_rd_def rd_take_append rd_end_def)
qed

lemma enc_norm_package: "enc_package (p\<lparr>wp_context := norm_context (wp_context p)\<rparr>) = enc_package p"
  by (simp add: enc_package_def enc_norm_context)

section \<open>What can be encoded\<close>

definition fits :: "nat \<Rightarrow> int \<Rightarrow> bool" where
  "fits n x \<longleftrightarrow> 0 \<le> x \<and> x < 256 ^ n"

definition small :: "'a list \<Rightarrow> bool" where
  "small xs \<longleftrightarrow> int (length xs) < 2 ^ 64"

definition wf_context :: "refine_context \<Rightarrow> bool" where
  "wf_context c \<longleftrightarrow> list_all (\<lambda>h. length h = 32) ([rc_anchor c, rc_state_root c, rc_beefy_root c, rc_lookup_anchor c,
       rc_lookup_anchor_state_root c] @ rc_prerequisites c) \<and>
     fits 4 (rc_anchor_slot c) \<and> fits 4 (rc_lookup_anchor_slot c) \<and> small (rc_prerequisites c)"

definition wf_import :: "import_ref \<Rightarrow> bool" where
  "wf_import r \<longleftrightarrow> length (ir_root r) = 32 \<and> 0 \<le> ir_index r \<and> ir_index r < 2 ^ 15"

definition wf_item :: "work_item \<Rightarrow> bool" where
  "wf_item w \<longleftrightarrow> fits 4 (wi_service w) \<and> length (wi_code_hash w) = 32 \<and> fits 8 (wi_refine_gas w) \<and>
     fits 8 (wi_accumulate_gas w) \<and> fits 2 (wi_export_count w) \<and> small (wi_payload w) \<and>
     small (wi_imports w) \<and> list_all wf_import (wi_imports w) \<and> small (wi_extrinsics w) \<and>
     list_all (\<lambda>x. length (fst x) = 32 \<and> fits 4 (snd x)) (wi_extrinsics w)"

definition wf_package :: "work_package \<Rightarrow> bool" where
  "wf_package p \<longleftrightarrow> wp_items p \<noteq> [] \<and> fits 4 (wp_auth_code_host p) \<and> length (wp_auth_code_hash p) = 32 \<and>
     wf_context (wp_context p) \<and> small (wp_authorization p) \<and> small (wp_authorizer_config p) \<and>
     small (wp_items p) \<and> list_all wf_item (wp_items p)"

lemma is_ok_cat [bytes_simps]: "is_ok (cat ps) \<longleftrightarrow> list_all is_ok ps"
proof (induction ps)
  case Nil
  then show ?case by (simp add: cat.simps)
next
  case (Cons p ps)
  then show ?case by (cases p; cases "cat ps") (simp_all add: cat.simps)
qed

lemma is_ok_prims [bytes_simps]:
  "is_ok (hash32 h) \<longleftrightarrow> length h = 32" "is_ok (to_bytes x n) \<longleftrightarrow> fits n x"
  by (simp_all add: hash32_def to_bytes_def fits_def)

lemma is_ok_enc_nat [bytes_simps]: "is_ok (enc_nat (int (length xs))) \<longleftrightarrow> small xs"
  by (simp add: enc_nat_def small_def split: option.split)

lemma is_ok_bind [bytes_simps]: "is_ok (bind_res r (\<lambda>x. Inr (f x))) \<longleftrightarrow> is_ok r"
  by (cases r) simp_all

lemma is_ok_enc_seq [bytes_simps]: "is_ok (enc_seq enc xs) \<longleftrightarrow> small xs \<and> list_all (\<lambda>x. is_ok (enc x)) xs"
  by (simp add: enc_seq_def is_ok_cat is_ok_enc_nat list.pred_map comp_def)

lemma is_ok_enc_context: "is_ok (enc_context c) \<longleftrightarrow> wf_context c"
proof -
  have "small (sort_key (map unat) hs) \<longleftrightarrow> small hs" for hs :: "bytes list" by (simp add: small_def)
  then show ?thesis
    by (simp add: enc_context_def wf_context_def map_res_hash32_if Let_def is_ok_cat is_ok_prims is_ok_enc_nat
        list_all_iff del: length_sort) blast
qed

lemma is_ok_enc_import: "is_ok (enc_import r) \<longleftrightarrow> wf_import r"
  by (auto simp: enc_import_def wf_import_def bytes_simps fits_def)

lemma is_ok_enc_item: "is_ok (enc_item w) \<longleftrightarrow> wf_item w"
  by (simp add: enc_item_def wf_item_def is_ok_cat is_ok_prims is_ok_enc_seq var_def is_ok_bind is_ok_enc_nat
      is_ok_enc_import enc_extrinsic_def conj_ac)

lemma is_ok_enc_package: "is_ok (enc_package p) \<longleftrightarrow> wf_package p"
  by (auto simp: enc_package_def wf_package_def is_ok_cat is_ok_prims is_ok_enc_seq var_def is_ok_bind is_ok_enc_nat
      is_ok_enc_context is_ok_enc_item)

section \<open>Properties\<close>

definition sample_context :: refine_context where
  "sample_context = \<lparr>rc_anchor = replicate 32 1, rc_anchor_slot = 7, rc_state_root = replicate 32 2,
     rc_beefy_root = replicate 32 3, rc_lookup_anchor = replicate 32 4, rc_lookup_anchor_slot = 5,
     rc_lookup_anchor_state_root = replicate 32 6, rc_prerequisites = [replicate 32 9, replicate 32 8]\<rparr>"

definition sample_item :: work_item where
  "sample_item = \<lparr>wi_service = 42, wi_code_hash = replicate 32 5, wi_payload = [1, 2, 3], wi_refine_gas = 1000,
     wi_accumulate_gas = 10, wi_export_count = 0,
     wi_imports = [\<lparr>ir_root = replicate 32 1, ir_index = 3, ir_by_package = True\<rparr>],
     wi_extrinsics = [(replicate 32 2, 9)]\<rparr>"

definition sample_package :: work_package where
  "sample_package = \<lparr>wp_auth_code_host = 0, wp_auth_code_hash = replicate 32 7, wp_context = sample_context,
     wp_items = [sample_item], wp_authorization = [4], wp_authorizer_config = []\<rparr>"

lemma wf_sample_package: "wf_package sample_package"
  by code_simp

lemma enc_sample_package: "\<exists>b. enc_package sample_package = Inr b"
  using wf_sample_package [folded is_ok_enc_package] by (cases "enc_package sample_package") auto

text \<open>C33: encoding raises exactly on the packages that are not well formed: no items, a hash that is
  not 32 octets, an integer outside its field, an import index of 2^15 or more. Every other
  package is encoded.\<close>

theorem package_encodes_iff_wf: "is_ok (enc_package p) = wf_package p"
  by (rule is_ok_enc_package)

text \<open>C17: a work-package decodes from its own encoding: every field back as it was, the
  prerequisites (a set) in order.\<close>

theorem package_round_trip:
  assumes "enc_package p = Inr b"
  shows "dec_package b = Inr (p\<lparr>wp_context := norm_context (wp_context p)\<rparr>)"
  by (rule dec_enc_package [OF assms])

theorem package_round_trip_witness:
  "\<exists>b. enc_package sample_package = Inr b \<and>
     dec_package b = Inr (sample_package\<lparr>wp_context := norm_context sample_context\<rparr>)"
proof -
  obtain b where "enc_package sample_package = Inr b" using enc_sample_package by blast
  with package_round_trip [OF this] show ?thesis by (simp add: sample_package_def)
qed

text \<open>C34: the general natural is canonical. Whatever octets decode to a natural are that natural's one
  encoding followed by the rest, and every encoding decodes: so two encodings of naturals
  never differ for one value, and none is a proper prefix of another.\<close>

theorem nat_codec_canonical:
  "(dec_nat buf = Inr (x, rest)) = (\<exists>b. enc_nat x = Inr b \<and> buf = b @ rest)"
  using dec_nat_canonical dec_nat_enc_nat by blast

lemma replicate_lex: "0 < n \<Longrightarrow> (replicate n x \<le> replicate n y) = (x \<le> (y::nat))"
  by (cases n) (auto simp: le_less)



end
