(* ===== verification/Effects.thy ===== *)
theory Effects
  imports Prelude "HOL-Library.AList" "HOL-Library.Char_ord" "HOL-Library.List_Lexorder"
begin

text \<open>
  The vocabulary of the stateful components: Python dicts as association lists in insertion order,
  computations that change a state and may raise (a raise keeps the changes made before it, as in
  Python), exception handlers, loops over such computations, and the rounding Python's \<^verbatim>\<open>round\<close> does
  (half to even, here on exact rationals). \<open>keeps\<close> is the invariant rule: one lemma per combinator,
  so an invariant of a handler is proved by following its text.
\<close>

section \<open>Dicts\<close>

type_synonym ('k, 'v) dict = "('k \<times> 'v) list"

abbreviation dget :: "('k, 'v) dict \<Rightarrow> 'k \<Rightarrow> 'v option" where "dget \<equiv> map_of"
abbreviation dset :: "'k \<Rightarrow> 'v \<Rightarrow> ('k, 'v) dict \<Rightarrow> ('k, 'v) dict" where "dset \<equiv> AList.update"
abbreviation dpop :: "'k \<Rightarrow> ('k, 'v) dict \<Rightarrow> ('k, 'v) dict" where "dpop \<equiv> AList.delete"

text \<open>\<^verbatim>\<open>d.get(k, x)\<close>\<close>

definition dget_or :: "('k, 'v) dict \<Rightarrow> 'k \<Rightarrow> 'v \<Rightarrow> 'v" where
  "dget_or d k x = (case dget d k of None \<Rightarrow> x | Some v \<Rightarrow> v)"

definition dkeys :: "('k, 'v) dict \<Rightarrow> 'k list" where
  "dkeys d = map fst d"

definition wf_dict :: "('k, 'v) dict \<Rightarrow> bool" where
  "wf_dict d \<longleftrightarrow> distinct (map fst d)"

lemma dget_dset [simp]: "dget (dset k v d) k' = (if k' = k then Some v else dget d k')"
  by (simp add: update_conv')

lemma dget_dpop [simp]: "dget (dpop k d) k' = (if k' = k then None else dget d k')"
  by (simp add: delete_conv')

lemma dget_or_dset [simp]: "dget_or (dset k v d) k' x = (if k' = k then v else dget_or d k' x)"
  by (simp add: dget_or_def)

lemma dget_or_dpop [simp]: "dget_or (dpop k d) k' x = (if k' = k then x else dget_or d k' x)"
  by (simp add: dget_or_def)

lemma wf_dict_dset [simp]: "wf_dict d \<Longrightarrow> wf_dict (dset k v d)"
  by (simp add: wf_dict_def distinct_update)

lemma wf_dict_dpop [simp]: "wf_dict d \<Longrightarrow> wf_dict (dpop k d)"
  by (simp add: wf_dict_def distinct_delete)

lemma wf_dict_Nil [simp]: "wf_dict []"
  by (simp add: wf_dict_def)

text \<open>\<^verbatim>\<open>collections.Counter\<close>\<close>

definition tally :: "'k list \<Rightarrow> ('k, nat) dict" where
  "tally xs = fold (\<lambda>x d. dset x (dget_or d x 0 + 1) d) xs []"

lemma tally_fold: "dget_or (fold (\<lambda>x d. dset x (dget_or d x 0 + 1) d) xs d) k 0 = dget_or d k 0 + count_list xs k"
  by (induction xs arbitrary: d) simp_all

lemma dget_or_tally [simp]: "dget_or (tally xs) k 0 = count_list xs k"
  unfolding tally_def tally_fold by (simp add: dget_or_def)

lemma sum_dset: "wf_dict d \<Longrightarrow> sum_list (map snd (dset x (dget_or d x (0::nat) + 1) d)) = sum_list (map snd d) + 1"
proof (induction d)
  case Nil
  then show ?case by (simp add: dget_or_def)
next
  case (Cons p d)
  then show ?case by (cases p) (auto simp: dget_or_def wf_dict_def)
qed

lemma sum_tally_fold:
  "wf_dict d \<Longrightarrow> sum_list (map snd (fold (\<lambda>x d. dset x (dget_or d x 0 + 1) d) xs d)) = sum_list (map snd d) + length xs"
proof (induction xs arbitrary: d)
  case (Cons x xs)
  then show ?case using sum_dset [of d x] by (simp del: One_nat_def)
qed simp

lemma sum_tally [simp]: "sum_list (map snd (tally xs)) = length xs"
  unfolding tally_def by (subst sum_tally_fold) simp_all

section \<open>Computations that raise\<close>

type_synonym ('s, 'a) st = "'s \<Rightarrow> 'a res \<times> 's"

definition sret :: "'a \<Rightarrow> ('s, 'a) st" where
  "sret x s = (Inr x, s)"

definition sraise :: "exn \<Rightarrow> ('s, 'a) st" where
  "sraise e s = (Inl e, s)"

definition sbind :: "('s, 'a) st \<Rightarrow> ('a \<Rightarrow> ('s, 'b) st) \<Rightarrow> ('s, 'b) st" where
  "sbind m f s = (case m s of (Inl e, t) \<Rightarrow> (Inl e, t) | (Inr x, t) \<Rightarrow> f x t)"

definition sthen :: "('s, 'a) st \<Rightarrow> ('s, 'b) st \<Rightarrow> ('s, 'b) st" where
  "sthen m n = sbind m (\<lambda>_. n)"

definition sget :: "('s \<Rightarrow> 'a) \<Rightarrow> ('s, 'a) st" where
  "sget f s = (Inr (f s), s)"

definition supd :: "('s \<Rightarrow> 's) \<Rightarrow> ('s, unit) st" where
  "supd f s = (Inr (), f s)"

definition slift :: "'a res \<Rightarrow> ('s, 'a) st" where
  "slift r s = (r, s)"

text \<open>\<^verbatim>\<open>try: m except ...: h\<close>\<close>

definition stry :: "('s, 'a) st \<Rightarrow> (exn \<Rightarrow> ('s, 'a) st) \<Rightarrow> ('s, 'a) st" where
  "stry m h s = (case m s of (Inl e, t) \<Rightarrow> h e t | (Inr x, t) \<Rightarrow> (Inr x, t))"

definition swhen :: "bool \<Rightarrow> ('s, unit) st \<Rightarrow> ('s, unit) st" where
  "swhen b m = (if b then m else sret ())"

text \<open>\<^verbatim>\<open>for x in xs: f(x)\<close>, with and without an accumulator\<close>

fun siter :: "('a \<Rightarrow> ('s, unit) st) \<Rightarrow> 'a list \<Rightarrow> ('s, unit) st" where
  "siter f [] = sret ()"
| "siter f (x # xs) = sthen (f x) (siter f xs)"

fun sfold :: "('a \<Rightarrow> 'b \<Rightarrow> ('s, 'b) st) \<Rightarrow> 'a list \<Rightarrow> 'b \<Rightarrow> ('s, 'b) st" where
  "sfold f [] a = sret a"
| "sfold f (x # xs) a = sbind (f x a) (sfold f xs)"

fun smap :: "('a \<Rightarrow> ('s, 'b) st) \<Rightarrow> 'a list \<Rightarrow> ('s, 'b list) st" where
  "smap f [] = sret []"
| "smap f (x # xs) = sbind (f x) (\<lambda>y. sbind (smap f xs) (\<lambda>ys. sret (y # ys)))"

named_theorems st_simps \<open>running the stateful combinators\<close>

lemma st_run [st_simps]:
  "sret x s = (Inr x, s)" "sraise e s = (Inl e, s)" "sget f s = (Inr (f s), s)"
  "supd u s = (Inr (), u s)" "slift r s = (r, s)"
  by (simp_all add: sret_def sraise_def sget_def supd_def slift_def)

lemma st_run_bind [st_simps]: "sbind m f s = (case m s of (r, t) \<Rightarrow> (case r of Inl e \<Rightarrow> (Inl e, t) | Inr x \<Rightarrow> f x t))"
  by (simp add: sbind_def split: prod.split sum.split)

lemma st_run_then [st_simps]: "sthen m n s = (case m s of (r, t) \<Rightarrow> (case r of Inl e \<Rightarrow> (Inl e, t) | Inr x \<Rightarrow> n t))"
  by (simp add: sthen_def st_run_bind)

lemma st_run_try [st_simps]: "stry m h s = (case m s of (r, t) \<Rightarrow> (case r of Inl e \<Rightarrow> h e t | Inr x \<Rightarrow> (Inr x, t)))"
  by (simp add: stry_def split: prod.split sum.split)

lemma st_run_when [st_simps]: "swhen b m s = (if b then m s else (Inr (), s))"
  by (simp add: swhen_def sret_def)

section \<open>Invariants\<close>

text \<open>\<open>keeps P m\<close>: whatever \<open>m\<close> does, returning or raising, it leads from \<open>P\<close> to \<open>P\<close>.\<close>

definition keeps :: "('s \<Rightarrow> bool) \<Rightarrow> ('s, 'a) st \<Rightarrow> bool" where
  "keeps P m \<longleftrightarrow> (\<forall>s. P s \<longrightarrow> P (snd (m s)))"

named_theorems keeps_intros \<open>introduction rules for keeps\<close>

lemma keepsD: "keeps P m \<Longrightarrow> P s \<Longrightarrow> P (snd (m s))"
  by (simp add: keeps_def)

lemma keepsI: "(\<And>s. P s \<Longrightarrow> P (snd (m s))) \<Longrightarrow> keeps P m"
  by (simp add: keeps_def)

lemma keeps_pure [keeps_intros]:
  "keeps P (sret x)" "keeps P (sraise e)" "keeps P (sget f)" "keeps P (slift r)"
  by (simp_all add: keeps_def st_simps)

lemma keeps_supd [keeps_intros]: "(\<And>s. P s \<Longrightarrow> P (u s)) \<Longrightarrow> keeps P (supd u)"
  by (simp add: keeps_def st_simps)

lemma keeps_bind [keeps_intros]: "keeps P m \<Longrightarrow> (\<And>x. keeps P (f x)) \<Longrightarrow> keeps P (sbind m f)"
  by (auto simp: keeps_def st_simps split: prod.splits sum.splits)

lemma keeps_then [keeps_intros]: "keeps P m \<Longrightarrow> keeps P n \<Longrightarrow> keeps P (sthen m n)"
  by (simp add: sthen_def keeps_bind)

lemma keeps_try [keeps_intros]: "keeps P m \<Longrightarrow> (\<And>e. keeps P (h e)) \<Longrightarrow> keeps P (stry m h)"
  by (auto simp: keeps_def st_simps split: prod.splits sum.splits)

lemma keeps_when [keeps_intros]: "keeps P m \<Longrightarrow> keeps P (swhen b m)"
  by (simp add: swhen_def keeps_pure)

lemma keeps_if [keeps_intros]: "keeps P m \<Longrightarrow> keeps P n \<Longrightarrow> keeps P (if b then m else n)"
  by simp

lemma keeps_siter [keeps_intros]: "(\<And>x. x \<in> set xs \<Longrightarrow> keeps P (f x)) \<Longrightarrow> keeps P (siter f xs)"
  by (induction xs) (auto intro!: keeps_intros)

lemma keeps_sfold [keeps_intros]: "(\<And>x a. keeps P (f x a)) \<Longrightarrow> keeps P (sfold f xs a)"
  by (induction xs arbitrary: a) (auto intro!: keeps_intros)

lemma keeps_smap [keeps_intros]: "(\<And>x. keeps P (f x)) \<Longrightarrow> keeps P (smap f xs)"
  by (induction xs) (auto intro!: keeps_intros)

lemma keeps_case_option [keeps_intros]:
  "keeps P m \<Longrightarrow> (\<And>x. keeps P (f x)) \<Longrightarrow> keeps P (case v of None \<Rightarrow> m | Some x \<Rightarrow> f x)"
  by (cases v) simp_all

lemma keeps_case_prod [keeps_intros]: "(\<And>x y. keeps P (f x y)) \<Longrightarrow> keeps P (case v of (x, y) \<Rightarrow> f x y)"
  by (cases v) simp

section \<open>Decimal numbers\<close>

text \<open>\<^verbatim>\<open>str(n)\<close>\<close>

fun show_nat :: "nat \<Rightarrow> string" where
  "show_nat n = (if n < 10 then [char_of (48 + n)] else show_nat (n div 10) @ [char_of (48 + n mod 10)])"

declare show_nat.simps [simp del]

definition show_int :: "int \<Rightarrow> string" where
  "show_int i = (if i < 0 then CHR ''-'' # show_nat (nat (- i)) else show_nat (nat i))"

text \<open>A number with at most four decimals, as Python prints it: whole ones without a point.\<close>

definition show_num :: "rat \<Rightarrow> string" where
  "show_num x = (let n = nat \<lfloor>\<bar>x\<bar> * 10000\<rfloor>; w = n div 10000; f = n mod 10000;
       digits = map (\<lambda>k. char_of (48 + (f div k) mod 10)) [1000, 100, 10, 1];
       frac = rev (dropWhile (\<lambda>c. c = CHR ''0'') (rev digits))
     in (if x < 0 then ''-'' else []) @ show_nat w @ (if frac = [] then [] else CHR ''.'' # frac))"

text \<open>A \<^verbatim>\<open>deque(maxlen=n)\<close> after an append.\<close>

definition push_bounded :: "nat \<Rightarrow> 'a \<Rightarrow> 'a list \<Rightarrow> 'a list" where
  "push_bounded n x xs = drop (length xs + 1 - n) (xs @ [x])"

lemma length_push_bounded: "length (push_bounded n x xs) \<le> n"
  by (simp add: push_bounded_def)

lemma set_push_bounded: "set (push_bounded n x xs) \<subseteq> insert x (set xs)"
  using set_drop_subset [of "length xs + 1 - n" "xs @ [x]"] by (simp add: push_bounded_def)

section \<open>Rounding and clocks\<close>

text \<open>\<^verbatim>\<open>round(x)\<close>: to the nearest integer, ties to the even one.\<close>

definition py_round :: "rat \<Rightarrow> int" where
  "py_round x = (let f = \<lfloor>x\<rfloor>; d = x - of_int f in
     if d < 1 / 2 then f else if 1 / 2 < d then f + 1 else if even f then f else f + 1)"

definition round_to :: "nat \<Rightarrow> rat \<Rightarrow> rat" where
  "round_to k x = of_int (py_round (x * 10 ^ k)) / 10 ^ k"

lemma py_round_int [simp]: "py_round (of_int n) = n"
  by (simp add: py_round_def)

lemma py_round_near: "\<bar>of_int (py_round x) - x\<bar> \<le> 1 / 2"
proof -
  define f where "f = \<lfloor>x\<rfloor>"
  have b: "of_int f \<le> x" "x < of_int f + 1" unfolding f_def by linarith+
  have r: "py_round x = (if x - of_int f < 1 / 2 then f else if 1 / 2 < x - of_int f then f + 1 else if even f then f else f + 1)"
    by (simp add: py_round_def Let_def f_def)
  show ?thesis
  proof (cases "x - of_int f < 1 / 2")
    case True
    with b show ?thesis unfolding r by (simp add: abs_le_iff)
  next
    case False
    with b show ?thesis unfolding r by (cases "1 / 2 < x - of_int f"; cases "even f") (simp_all add: abs_le_iff)
  qed
qed

lemma py_round_mono: "x \<le> y \<Longrightarrow> py_round x \<le> py_round y"
proof -
  assume le: "x \<le> y"
  define f g where "f = \<lfloor>x\<rfloor>" and "g = \<lfloor>y\<rfloor>"
  have fg: "f \<le> g" unfolding f_def g_def using le by (rule floor_mono)
  have r: "f \<le> py_round x" "py_round x \<le> f + 1" "g \<le> py_round y" "py_round y \<le> g + 1"
    by (simp_all add: py_round_def Let_def f_def g_def)
  show ?thesis
  proof (cases "f = g")
    case True
    with le show ?thesis unfolding py_round_def Let_def f_def [symmetric] g_def [symmetric] by auto
  next
    case False
    with fg r show ?thesis by linarith
  qed
qed

lemma round_to_mono: "x \<le> y \<Longrightarrow> round_to k x \<le> round_to k y"
  unfolding round_to_def by (intro divide_right_mono) (simp_all add: py_round_mono)

lemma round_to_exact: "x * 10 ^ k = of_int n \<Longrightarrow> round_to k x = x"
  by (simp add: round_to_def) (simp add: field_simps)

text \<open>A clock gives the successive readings of \<^verbatim>\<open>time.time()\<close> in one call.\<close>

type_synonym clock = "nat \<Rightarrow> time"

end
