(* ===== verification/Chain_Types.thy ===== *)
theory Chain_Types
  imports Work_Package Effects
begin

text \<open>
  The values \<^verbatim>\<open>src/offchain/chain.py\<close> hands to its clients: a block, a service account record with its
  decoder, and a submission receipt. Also \<^verbatim>\<open>struct.pack("<...")\<close>, which raises \<open>StructError\<close> for a value
  outside its field.
\<close>

record block =
  bk_slot :: "int option"
  bk_hash :: "bytes option"
  bk_height :: "int option"

record service_info =
  si_code_hash :: bytes
  si_balance :: int
  si_min_item_gas :: int
  si_min_memo_gas :: int
  si_octets :: int
  si_gratis :: int
  si_items :: int
  si_created :: int
  si_last_accumulated :: int
  si_parent :: int

definition SIZE :: nat where "SIZE = 89"

definition field :: "nat \<Rightarrow> nat \<Rightarrow> bytes \<Rightarrow> int" where
  "field i n data = int (le_dec (take n (drop i data)))"

definition service_info_decode :: "bytes \<Rightarrow> service_info res" where
  "service_info_decode data =
     (if length data \<noteq> SIZE \<or> data ! 0 \<noteq> 0 then Inl (ChainError ''service record'')
      else let e8 = (\<lambda>i. field (33 + 8 * i) 8 data); e4 = (\<lambda>i. field (73 + 4 * i) 4 data)
           in Inr \<lparr>si_code_hash = take 32 (drop 1 data), si_balance = e8 0, si_min_item_gas = e8 1,
                   si_min_memo_gas = e8 2, si_octets = e8 3, si_gratis = e8 4, si_items = e4 0, si_created = e4 1,
                   si_last_accumulated = e4 2, si_parent = e4 3\<rparr>)"

text \<open>The record as GP 0.8.0 lays it out, for the round trip.\<close>

definition service_info_encode :: "service_info \<Rightarrow> bytes" where
  "service_info_encode s = [0] @ si_code_hash s @
     concat (map (\<lambda>x. le_enc 8 (nat x)) [si_balance s, si_min_item_gas s, si_min_memo_gas s, si_octets s, si_gratis s]) @
     concat (map (\<lambda>x. le_enc 4 (nat x)) [si_items s, si_created s, si_last_accumulated s, si_parent s])"

definition wf_service_info :: "service_info \<Rightarrow> bool" where
  "wf_service_info s \<longleftrightarrow> length (si_code_hash s) = 32 \<and>
     list_all (fits 8) [si_balance s, si_min_item_gas s, si_min_memo_gas s, si_octets s, si_gratis s] \<and>
     list_all (fits 4) [si_items s, si_created s, si_last_accumulated s, si_parent s]"

record receipt =
  rc_build_seconds :: "time option"
  rc_send_seconds :: "time option"

definition pack :: "nat \<Rightarrow> int \<Rightarrow> bytes res" where
  "pack n x = (if fits n x then Inr (le_enc n (nat x)) else Inl StructError)"

definition packs :: "(nat \<times> int) list \<Rightarrow> bytes res" where
  "packs fs = bind_res (map_res (\<lambda>(n, x). pack n x) fs) (\<lambda>bs. Inr (concat bs))"

lemma pack_Ok: "pack n x = Inr b \<longleftrightarrow> fits n x \<and> b = le_enc n (nat x)"
  by (auto simp: pack_def)

lemma le_dec_field: "fits n x \<Longrightarrow> int (le_dec (le_enc n (nat x))) = x"
  by (simp add: fits_def le_dec_le_enc nat_less_iff)

lemma take_drop_field:
  assumes "length a = i" and "length b = n"
  shows "take n (drop i (a @ b @ c)) = b"
  using assms by simp

lemma field_at:
  assumes "length a = i" and "fits n x"
  shows "field i n (a @ le_enc n (nat x) @ c) = x"
  using assms by (simp add: field_def le_dec_field)

lemma service_info_round_trip:
  assumes "wf_service_info s"
  shows "service_info_decode (service_info_encode s) = Inr s"
proof -
  let ?d = "service_info_encode s"
  have len: "length ?d = SIZE" using assms by (simp add: service_info_encode_def wf_service_info_def SIZE_def)
  have hd: "?d ! 0 = 0" by (simp add: service_info_encode_def)
  have code: "take 32 (drop 1 ?d) = si_code_hash s"
    using assms by (simp add: service_info_encode_def wf_service_info_def)
  have e8: "field 33 8 ?d = si_balance s" "field 41 8 ?d = si_min_item_gas s" "field 49 8 ?d = si_min_memo_gas s"
      "field 57 8 ?d = si_octets s" "field 65 8 ?d = si_gratis s"
    using assms by (simp_all add: service_info_encode_def wf_service_info_def field_def le_dec_field)
  have e4: "field 73 4 ?d = si_items s" "field 77 4 ?d = si_created s" "field 81 4 ?d = si_last_accumulated s"
      "field 85 4 ?d = si_parent s"
    using assms by (simp_all add: service_info_encode_def wf_service_info_def field_def le_dec_field)
  show ?thesis
    unfolding service_info_decode_def Let_def using len hd code e8 e4 by simp
qed

text \<open>C35: the service account record decodes to exactly the fields its GP 0.8.0 layout holds: every
  well-formed record comes back from its 89 octets.\<close>

theorem service_record_round_trip:
  assumes "wf_service_info s"
  shows "length (service_info_encode s) = SIZE \<and> service_info_decode (service_info_encode s) = Inr s"
proof
  show "length (service_info_encode s) = SIZE"
    using assms by (simp add: service_info_encode_def wf_service_info_def SIZE_def)
qed (rule service_info_round_trip [OF assms])

definition sample_info :: service_info where
  "sample_info = \<lparr>si_code_hash = replicate 32 7, si_balance = 100, si_min_item_gas = 10, si_min_memo_gas = 5,
     si_octets = 4096, si_gratis = 0, si_items = 12, si_created = 3, si_last_accumulated = 9, si_parent = 0\<rparr>"

theorem service_record_round_trip_witness: "service_info_decode (service_info_encode sample_info) = Inr sample_info"
proof -
  have "wf_service_info sample_info" by code_simp
  from service_record_round_trip [OF this] show ?thesis by blast
qed

end
