(* ===== verification/Orders.thy ===== *)
theory Orders
  imports Prelude
begin

text \<open>
  The order dict that every part of the builder passes around. Prices, quantities and
  identifiers are Python ints. \<open>o_sealed\<close> is \<^verbatim>\<open>o.get("sealed")\<close>, \<open>o_expiry\<close> is \<^verbatim>\<open>o.get("expiry")\<close>
  (\<open>None\<close>: absent, good-till-cancelled), and \<open>o_uid\<close> stands for Python's object identity
  \<^verbatim>\<open>id(o)\<close>: two dicts are the same object iff their uids agree. \<open>o_seq\<close> is
  \<^verbatim>\<open>o.get("seq", 0)\<close>, \<open>o_market\<close> is \<^verbatim>\<open>o.get("type") == "market"\<close> and \<open>o_signed_price\<close> the
  price the trader signed; \<open>o_commit\<close> is \<^verbatim>\<open>o.get("commit")\<close>, the sealed order's current commitment.
  The record is extensible: the clearing and the planner read no
  other field, so their definitions and lemmas hold for any extension.
\<close>

record order =
  o_account :: int
  o_oid :: int
  o_side :: int
  o_price :: int
  o_qty :: int
  o_sealed :: bool
  o_expiry :: "time option"
  o_uid :: nat
  o_seq :: int
  o_market :: bool
  o_signed_price :: int
  o_pubkey :: bytes
  o_sig :: bytes
  o_commit :: "bytes option"
  o_reveal :: bytes
  o_ciphertext :: bytes

definition BUY :: int where "BUY = 0"
definition SELL :: int where "SELL = 1"

lemma BUY_neq_SELL [simp]: "BUY \<noteq> SELL" "SELL \<noteq> BUY"
  by (simp_all add: BUY_def SELL_def)

text \<open>What the wire and the order entry guarantee of a batch: non-negative quantities, the
  two sides, and one order per oid.\<close>

definition wf_batch :: "'a order_scheme list \<Rightarrow> bool" where
  "wf_batch os \<longleftrightarrow> (\<forall>od\<in>set os. 0 \<le> o_qty od \<and> (o_side od = BUY \<or> o_side od = SELL))
     \<and> distinct (map o_oid os)"

text \<open>An order with the fields the clearing reads, for concrete examples.\<close>

definition mk_order :: "int \<Rightarrow> int \<Rightarrow> int \<Rightarrow> int \<Rightarrow> order" where
  "mk_order i s p q = \<lparr>o_account = i, o_oid = i, o_side = s, o_price = p, o_qty = q,
     o_sealed = False, o_expiry = None, o_uid = nat i,
     o_seq = 0, o_market = False, o_signed_price = p,
     o_pubkey = [], o_sig = [], o_commit = None, o_reveal = [], o_ciphertext = []\<rparr>"

lemma wf_batchD:
  assumes "wf_batch os"
  shows "\<And>od. od \<in> set os \<Longrightarrow> 0 \<le> o_qty od"
    and "distinct (map o_oid os)"
  using assms by (auto simp: wf_batch_def)

end
