(* ===== verification/Clearing.thy ===== *)
theory Clearing
  imports Orders
begin

text \<open>
  \<^verbatim>\<open>src/offchain/clearing.py\<close>: the uniform-price batch auction. \<open>clear\<close> scans the candidate prices,
  then rations the cleared volume over each side in price-time priority. The lemmas show
  that the chosen price maximises the volume over ALL prices (not only the submitted ones)
  with the documented tie-breaks, that each side's fills add up to the volume, and that fills
  respect limits, quantities and priority.
\<close>

section \<open>The model\<close>

definition demand_at :: "'a order_scheme list \<Rightarrow> int \<Rightarrow> int" where
  "demand_at orders p = sum_list (map o_qty (filter (\<lambda>od. o_side od = BUY \<and> p \<le> o_price od) orders))"

definition supply_at :: "'a order_scheme list \<Rightarrow> int \<Rightarrow> int" where
  "supply_at orders p = sum_list (map o_qty (filter (\<lambda>od. o_side od = SELL \<and> o_price od \<le> p) orders))"

text \<open>\<open>(best_p, best_v, best_imb)\<close>; the imbalance \<open>None\<close> is \<^verbatim>\<open>float("inf")\<close>.\<close>

type_synonym best = "int \<times> int \<times> int option"

definition below_inf :: "int \<Rightarrow> int option \<Rightarrow> bool" where
  "below_inf i b = (case b of None \<Rightarrow> True | Some j \<Rightarrow> i < j)"

text \<open>One turn of the loop over the candidate prices.\<close>

definition improve :: "(int \<Rightarrow> int) \<Rightarrow> (int \<Rightarrow> int) \<Rightarrow> int \<Rightarrow> best \<Rightarrow> best" where
  "improve d s p b = (case b of (bp, bv, bi) \<Rightarrow>
     let v = min (d p) (s p); imb = \<bar>d p - s p\<bar> in
     if bv < v \<or> v = bv \<and> 0 < v \<and> below_inf imb bi then (p, v, Some imb) else (bp, bv, bi))"

definition scan :: "(int \<Rightarrow> int) \<Rightarrow> (int \<Rightarrow> int) \<Rightarrow> int list \<Rightarrow> best \<Rightarrow> best" where
  "scan d s ps b = fold (improve d s) ps b"

type_synonym fills = "int \<rightharpoonup> int"

text \<open>\<^verbatim>\<open>fills.get(oid, 0)\<close>\<close>

definition fill_of :: "fills \<Rightarrow> int \<Rightarrow> int" where
  "fill_of f i = (case f i of None \<Rightarrow> 0 | Some x \<Rightarrow> x)"

fun ration :: "int \<Rightarrow> 'a order_scheme list \<Rightarrow> fills \<Rightarrow> fills" where
  "ration rem [] fills = fills"
| "ration rem (od # side) fills =
     (if rem = 0 then fills
      else let f = min rem (o_qty od) in
           ration (rem - f) side (fills(o_oid od \<mapsto> fill_of fills (o_oid od) + f)))"

record clearing =
  cl_price :: int
  cl_volume :: int
  cl_fills :: fills

definition candidate_prices :: "'a order_scheme list \<Rightarrow> int list" where
  "candidate_prices orders = sort (remdups (map o_price orders))"

definition eligible_buys :: "'a order_scheme list \<Rightarrow> int \<Rightarrow> 'a order_scheme list" where
  "eligible_buys orders p =
     sort_key (\<lambda>od. (- o_price od, o_oid od)) (filter (\<lambda>od. o_side od = BUY \<and> p \<le> o_price od) orders)"

definition eligible_sells :: "'a order_scheme list \<Rightarrow> int \<Rightarrow> 'a order_scheme list" where
  "eligible_sells orders p =
     sort_key (\<lambda>od. (o_price od, o_oid od)) (filter (\<lambda>od. o_side od = SELL \<and> o_price od \<le> p) orders)"

definition clear :: "'a order_scheme list \<Rightarrow> clearing" where
  "clear orders =
     (let (p, v, _) = scan (demand_at orders) (supply_at orders) (candidate_prices orders) (0, 0, None) in
      if v = 0 then \<lparr>cl_price = 0, cl_volume = 0, cl_fills = Map.empty\<rparr>
      else \<lparr>cl_price = p, cl_volume = v,
            cl_fills = ration v (eligible_sells orders p)
                         (ration v (eligible_buys orders p) Map.empty)\<rparr>)"

section \<open>The price scan\<close>

text \<open>What the scan has found after the candidates \<open>P\<close>: nothing if no candidate trades, else
  the best of them, the tie-breaks in order.\<close>

definition scanned :: "(int \<Rightarrow> int) \<Rightarrow> (int \<Rightarrow> int) \<Rightarrow> int set \<Rightarrow> best \<Rightarrow> bool" where
  "scanned v w P b = (case b of (bp, bv, bi) \<Rightarrow>
     if bv = 0 then bp = 0 \<and> bi = None \<and> (\<forall>p\<in>P. v p = 0)
     else 0 < bv \<and> bp \<in> P \<and> bv = v bp \<and> bi = Some (w bp) \<and>
          (\<forall>p\<in>P. v p \<le> bv \<and> (v p = bv \<longrightarrow> w bp \<le> w p \<and> (w p = w bp \<longrightarrow> bp \<le> p))))"

abbreviation vol_at :: "(int \<Rightarrow> int) \<Rightarrow> (int \<Rightarrow> int) \<Rightarrow> int \<Rightarrow> int" where
  "vol_at d s \<equiv> \<lambda>p. min (d p) (s p)"

abbreviation imb_at :: "(int \<Rightarrow> int) \<Rightarrow> (int \<Rightarrow> int) \<Rightarrow> int \<Rightarrow> int" where
  "imb_at d s \<equiv> \<lambda>p. \<bar>d p - s p\<bar>"

lemma scanned_pos:
  "x \<noteq> 0 \<Longrightarrow> scanned v w P (p, x, i) \<longleftrightarrow> 0 < x \<and> p \<in> P \<and> x = v p \<and> i = Some (w p) \<and>
     (\<forall>q\<in>P. v q \<le> x \<and> (v q = x \<longrightarrow> w p \<le> w q \<and> (w q = w p \<longrightarrow> p \<le> q)))"
  by (simp add: scanned_def)

lemma scanned_zero: "scanned v w P (p, 0, i) \<longleftrightarrow> p = 0 \<and> i = None \<and> (\<forall>q\<in>P. v q = 0)"
  by (simp add: scanned_def)

lemma scanned_insert_keep:
  assumes "scanned v w P (bp, bv, bi)" and "\<forall>q\<in>P. q \<le> p" and "0 \<le> v p"
    and "\<not> bv < v p" and "\<not> (v p = bv \<and> 0 < v p \<and> below_inf (w p) bi)"
  shows "scanned v w (insert p P) (bp, bv, bi)"
proof (cases "bv = 0")
  case True
  with assms show ?thesis by (auto simp: scanned_def)
next
  case False
  with assms(1) have b: "0 < bv" "bp \<in> P" "bv = v bp" "bi = Some (w bp)"
    by (auto simp: scanned_def)
  have "v p \<le> bv \<and> (v p = bv \<longrightarrow> w bp \<le> w p \<and> (w p = w bp \<longrightarrow> bp \<le> p))"
    using assms(2-5) b by (auto simp: below_inf_def)
  with assms(1) False show ?thesis
    by (auto simp: scanned_def)
qed

lemma scanned_insert_take:
  assumes "scanned v w P (bp, bv, bi)" and "\<forall>q\<in>P. q \<le> p"
    and "bv < v p \<or> v p = bv \<and> 0 < v p \<and> below_inf (w p) bi"
  shows "scanned v w (insert p P) (p, v p, Some (w p))"
proof -
  have pos: "0 < v p" "bv \<le> v p"
    using assms(1,3) by (auto simp: scanned_def split: if_splits)
  have "v q \<le> v p \<and> (v q = v p \<longrightarrow> w p \<le> w q \<and> (w q = w p \<longrightarrow> p \<le> q))" if "q \<in> P" for q
  proof (cases "bv = 0")
    case True
    then have "v q = 0" using assms(1) that by (simp add: scanned_def)
    then show ?thesis using pos by simp
  next
    case False
    then have q: "v q \<le> bv" "v q = bv \<longrightarrow> w bp \<le> w q" "bi = Some (w bp)"
      using assms(1) that by (auto simp: scanned_def)
    then show ?thesis using assms(3) pos by (auto simp: below_inf_def)
  qed
  then show ?thesis using pos by (simp add: scanned_def)
qed

lemma improve_scanned:
  assumes "scanned (vol_at d s) (imb_at d s) P b" and "\<forall>q\<in>P. q \<le> p" and "0 \<le> vol_at d s p"
  shows "scanned (vol_at d s) (imb_at d s) (insert p P) (improve d s p b)"
proof -
  obtain bp bv bi where b: "b = (bp, bv, bi)" by (cases b)
  show ?thesis
    using scanned_insert_keep [of "vol_at d s" "imb_at d s" P bp bv bi p]
      scanned_insert_take [of "vol_at d s" "imb_at d s" P bp bv bi p] assms
    unfolding b improve_def Let_def prod.case by (simp split del: if_split split: if_split)
qed

lemma scan_scanned:
  assumes "scanned (vol_at d s) (imb_at d s) P b" and "sorted ps"
    and "\<forall>q\<in>P. \<forall>p\<in>set ps. q \<le> p" and "\<forall>p\<in>set ps. 0 \<le> vol_at d s p"
  shows "scanned (vol_at d s) (imb_at d s) (P \<union> set ps) (scan d s ps b)"
  using assms
proof (induction ps arbitrary: P b)
  case Nil
  then show ?case by (simp add: scan_def)
next
  case (Cons p ps)
  have "scanned (vol_at d s) (imb_at d s) (insert p P) (improve d s p b)"
    by (rule improve_scanned) (use Cons.prems in simp_all)
  then have "scanned (vol_at d s) (imb_at d s) (insert p P \<union> set ps) (scan d s ps (improve d s p b))"
    by (rule Cons.IH) (use Cons.prems in simp_all)
  then show ?case by (simp add: scan_def)
qed

lemma demand_nonneg: "wf_batch os \<Longrightarrow> 0 \<le> demand_at os p"
  unfolding demand_at_def by (rule sum_list_filter_nonneg) (simp add: wf_batchD)

lemma supply_nonneg: "wf_batch os \<Longrightarrow> 0 \<le> supply_at os p"
  unfolding supply_at_def by (rule sum_list_filter_nonneg) (simp add: wf_batchD)

lemma set_candidate_prices [simp]: "set (candidate_prices os) = o_price ` set os"
  by (simp add: candidate_prices_def)

abbreviation clear_scan :: "'a order_scheme list \<Rightarrow> best" where
  "clear_scan os \<equiv> scan (demand_at os) (supply_at os) (candidate_prices os) (0, 0, None)"

lemma clear_scanned:
  assumes "wf_batch os"
  shows "scanned (vol_at (demand_at os) (supply_at os)) (imb_at (demand_at os) (supply_at os))
           (o_price ` set os) (clear_scan os)"
proof -
  have "scanned (vol_at (demand_at os) (supply_at os)) (imb_at (demand_at os) (supply_at os))
      ({} \<union> set (candidate_prices os)) (clear_scan os)"
    by (rule scan_scanned)
      (simp_all add: scanned_def candidate_prices_def demand_nonneg supply_nonneg assms)
  then show ?thesis by simp
qed

lemma clear_volume_zero:
  "cl_volume (clear os) = 0 \<longleftrightarrow> fst (snd (clear_scan os)) = 0"
  by (auto simp: clear_def Let_def split: prod.splits)

lemma clear_simps:
  assumes "clear_scan os = (p, v, i)" and "v \<noteq> 0"
  shows "clear os = \<lparr>cl_price = p, cl_volume = v,
    cl_fills = ration v (eligible_sells os p) (ration v (eligible_buys os p) Map.empty)\<rparr>"
  using assms by (simp add: clear_def)

lemma clear_none:
  assumes "clear_scan os = (p, 0, i)"
  shows "clear os = \<lparr>cl_price = 0, cl_volume = 0, cl_fills = Map.empty\<rparr>"
  using assms by (simp add: clear_def)

text \<open>Any price can be lowered to the highest submitted sell at or below it: the supply is
  the same and the demand no smaller. So the submitted prices are enough.\<close>

lemma supply_eq_on_gap:
  assumes "q \<le> p" and "\<And>od. od \<in> set os \<Longrightarrow> o_side od = SELL \<Longrightarrow> o_price od \<le> p \<Longrightarrow> o_price od \<le> q"
  shows "supply_at os p = supply_at os q"
proof -
  have "filter (\<lambda>od. o_side od = SELL \<and> o_price od \<le> p) os
      = filter (\<lambda>od. o_side od = SELL \<and> o_price od \<le> q) os"
    using assms by (intro filter_cong refl) force
  then show ?thesis by (simp add: supply_at_def)
qed

lemma demand_antimono: "wf_batch os \<Longrightarrow> q \<le> p \<Longrightarrow> demand_at os p \<le> demand_at os q"
  unfolding demand_at_def by (rule sum_list_filter_le) (auto simp: wf_batchD)

lemma supply_mono: "wf_batch os \<Longrightarrow> q \<le> p \<Longrightarrow> supply_at os q \<le> supply_at os p"
  unfolding supply_at_def by (rule sum_list_filter_le) (auto simp: wf_batchD)

lemma candidate_suffices:
  assumes "wf_batch os" and "0 < supply_at os p"
  shows "\<exists>q\<in>o_price ` set os. supply_at os p = supply_at os q \<and> demand_at os p \<le> demand_at os q"
proof -
  let ?S = "{o_price od |od. od \<in> set os \<and> o_side od = SELL \<and> o_price od \<le> p}"
  have fin: "finite ?S" by simp
  have "filter (\<lambda>od. o_side od = SELL \<and> o_price od \<le> p) os \<noteq> []"
    using assms(2) by (auto simp: supply_at_def)
  then have ne: "?S \<noteq> {}" by (auto simp: filter_empty_conv)
  have in_S: "Max ?S \<in> ?S" using fin ne by (rule Max_in)
  moreover have "supply_at os p = supply_at os (Max ?S)"
  proof (rule supply_eq_on_gap)
    show "Max ?S \<le> p" using in_S by auto
    show "o_price od \<le> Max ?S" if "od \<in> set os" "o_side od = SELL" "o_price od \<le> p" for od
      using fin that by (intro Max_ge) auto
  qed
  moreover have "demand_at os p \<le> demand_at os (Max ?S)"
    using in_S by (intro demand_antimono assms(1)) auto
  ultimately show ?thesis by blast
qed

lemma clear_volume_bound:
  assumes "wf_batch os"
  shows "min (demand_at os p) (supply_at os p) \<le> cl_volume (clear os)"
proof -
  obtain bp bv bi where b: "clear_scan os = (bp, bv, bi)" by (cases "clear_scan os")
  then have v: "cl_volume (clear os) = bv"
    by (simp add: clear_def)
  have cand: "min (demand_at os q) (supply_at os q) \<le> bv" if "q \<in> o_price ` set os" for q
    using clear_scanned [OF assms] that unfolding b by (auto simp: scanned_def split: if_splits)
  have "0 \<le> bv"
    using clear_scanned [OF assms] unfolding b by (auto simp: scanned_def split: if_splits)
  show ?thesis
  proof (cases "0 < supply_at os p")
    case True
    with cand show ?thesis
      using candidate_suffices [OF assms, of p] unfolding v by force
  next
    case False
    with \<open>0 \<le> bv\<close> show ?thesis unfolding v by simp
  qed
qed

section \<open>Rationing\<close>

text \<open>The amounts \<open>ration\<close> hands out along a side.\<close>

fun alloc :: "int \<Rightarrow> int list \<Rightarrow> int list" where
  "alloc rem [] = []"
| "alloc rem (q # qs) = min rem q # alloc (rem - min rem q) qs"

lemma length_alloc [simp]: "length (alloc rem qs) = length qs"
  by (induction rem qs rule: alloc.induct) simp_all

lemma alloc_zero: "\<forall>q\<in>set qs. 0 \<le> q \<Longrightarrow> alloc 0 qs = map (\<lambda>_. 0) qs"
  by (induction qs) (auto simp: min_def)

lemma sum_alloc:
  assumes "0 \<le> rem" and "\<forall>q\<in>set qs. 0 \<le> q"
  shows "sum_list (alloc rem qs) = min rem (sum_list qs)"
  using assms
proof (induction rem qs rule: alloc.induct)
  case (2 rem q qs)
  have "0 \<le> sum_list qs" using 2(3) by (simp add: sum_list_nonneg)
  with 2 show ?case by (auto simp: min_def)
qed simp

lemma alloc_nth:
  assumes "0 \<le> rem" and "\<forall>q\<in>set qs. 0 \<le> q" and "i < length qs"
  shows "alloc rem qs ! i = max 0 (min (qs ! i) (rem - sum_list (take i qs)))"
  using assms
proof (induction rem qs arbitrary: i rule: alloc.induct)
  case (2 rem q qs)
  show ?case
  proof (cases i)
    case 0
    with 2 show ?thesis by (auto simp: min_def max_def)
  next
    case (Suc j)
    have nn: "0 \<le> sum_list (take j qs)" "0 \<le> qs ! j"
      using 2(3,4) Suc by (auto intro!: sum_list_nonneg dest: in_set_takeD)
    have "alloc (rem - min rem q) qs ! j
        = max 0 (min (qs ! j) (rem - min rem q - sum_list (take j qs)))"
      using 2(1) [of j] 2(2-4) Suc by simp
    then show ?thesis
      using Suc nn by (auto simp: min_def max_def)
  qed
qed simp

lemma fill_of_upd [simp]: "fill_of (f(k \<mapsto> x)) i = (if i = k then x else fill_of f i)"
  by (simp add: fill_of_def)

lemma fill_of_empty [simp]: "fill_of Map.empty i = 0"
  by (simp add: fill_of_def)

text \<open>With one order per oid, an order's entry grows by exactly what it was handed and no
  other entry changes.\<close>

lemma ration_other:
  "i \<notin> o_oid ` set side \<Longrightarrow> fill_of (ration rem side f) i = fill_of f i"
  by (induction rem side f rule: ration.induct) (auto simp: Let_def)

lemma ration_nth:
  assumes "distinct (map o_oid side)" and "\<forall>od\<in>set side. 0 \<le> o_qty od" and "i < length side"
  shows "fill_of (ration rem side f) (o_oid (side ! i))
    = fill_of f (o_oid (side ! i)) + alloc rem (map o_qty side) ! i"
  using assms
proof (induction side arbitrary: rem f i)
  case (Cons od side)
  show ?case
  proof (cases "rem = 0")
    case True
    have "alloc 0 (map o_qty (od # side)) ! i = 0"
      using Cons.prems(2,3) by (subst alloc_zero) (auto simp del: alloc.simps simp: nth_Cons')
    then show ?thesis by (simp add: True del: alloc.simps)
  next
    case False
    show ?thesis
    proof (cases i)
      case 0
      with False Cons.prems(1) show ?thesis
        by (simp add: Let_def ration_other)
    next
      case (Suc j)
      then have "o_oid (side ! j) \<noteq> o_oid od"
        using Cons.prems(1,3) by auto (metis image_eqI nth_mem)
      with False Suc Cons show ?thesis
        by (simp add: Let_def)
    qed
  qed
qed simp

section \<open>Fills of a cleared batch\<close>

lemma set_eligible:
  "set (eligible_buys os p) = {od \<in> set os. o_side od = BUY \<and> p \<le> o_price od}"
  "set (eligible_sells os p) = {od \<in> set os. o_side od = SELL \<and> o_price od \<le> p}"
  by (auto simp: eligible_buys_def eligible_sells_def)

lemma wf_batch_inj: "wf_batch os \<Longrightarrow> a \<in> set os \<Longrightarrow> b \<in> set os \<Longrightarrow> o_oid a = o_oid b \<Longrightarrow> a = b"
  by (blast intro: distinct_map_filter_disjoint wf_batchD(2))

lemma distinct_eligible:
  assumes "wf_batch os"
  shows "distinct (map o_oid (eligible_buys os p))" "distinct (map o_oid (eligible_sells os p))"
  using wf_batchD(2) [OF assms]
  by (simp_all add: eligible_buys_def eligible_sells_def distinct_map_filter
      distinct_map inj_on_def)

text \<open>What an order with \<open>ahead\<close> units before it gets of the volume \<open>v\<close>.\<close>

definition share :: "int \<Rightarrow> int \<Rightarrow> int \<Rightarrow> int" where
  "share v ahead q = max 0 (min q (v - ahead))"

lemma ration_share:
  assumes "distinct (map o_oid side)" and "\<forall>od\<in>set side. 0 \<le> o_qty od" and "0 \<le> v"
    and "sorted (map k side)" and "distinct (map k side)" and "od \<in> set side"
  shows "fill_of (ration v side f) (o_oid od) = fill_of f (o_oid od)
    + share v (sum_list (map o_qty (filter (\<lambda>x. k x < k od) side))) (o_qty od)"
proof -
  obtain i where i: "i < length side" "side ! i = od"
    using assms(6) by (auto simp: in_set_conv_nth)
  have "take i side = filter (\<lambda>x. k x < k od) side"
    using sorted_take_filter [OF assms(4,5) i(1)] i(2) by simp
  moreover have "take i (map o_qty side) = map o_qty (take i side)"
    by (simp add: take_map)
  ultimately show ?thesis
    using ration_nth [OF assms(1,2) i(1), of v f] i
      alloc_nth [of v "map o_qty side" i] assms(2,3)
    by (simp add: share_def)
qed

definition buy_key :: "'a order_scheme \<Rightarrow> int \<times> int" where
  "buy_key od = (- o_price od, o_oid od)"

definition sell_key :: "'a order_scheme \<Rightarrow> int \<times> int" where
  "sell_key od = (o_price od, o_oid od)"

text \<open>Quantity with priority over \<open>od\<close> on its own side.\<close>

definition ahead_of :: "'a order_scheme list \<Rightarrow> 'a order_scheme \<Rightarrow> int" where
  "ahead_of os od = (if o_side od = BUY
     then sum_list (map o_qty (filter (\<lambda>x. o_side x = BUY \<and> buy_key x < buy_key od) os))
     else sum_list (map o_qty (filter (\<lambda>x. o_side x = SELL \<and> sell_key x < sell_key od) os)))"

definition eligible :: "int \<Rightarrow> 'a order_scheme \<Rightarrow> bool" where
  "eligible p od \<longleftrightarrow> (if o_side od = BUY then p \<le> o_price od else o_price od \<le> p)"

lemma ration_buys:
  assumes "wf_batch os" and "0 \<le> v" and "od \<in> set (eligible_buys os p)"
  shows "fill_of (ration v (eligible_buys os p) f) (o_oid od)
    = fill_of f (o_oid od) + share v (ahead_of os od) (o_qty od)"
proof -
  have el: "od \<in> set os" "o_side od = BUY" "p \<le> o_price od"
    using assms(3) by (simp_all add: set_eligible)
  have "filter (\<lambda>x. buy_key x < buy_key od) (filter (\<lambda>x. o_side x = BUY \<and> p \<le> o_price x) os)
      = filter (\<lambda>x. o_side x = BUY \<and> buy_key x < buy_key od) os"
    using el(3) by (auto simp: buy_key_def intro!: filter_cong)
  then have ahead: "sum_list (map o_qty (filter (\<lambda>x. buy_key x < buy_key od) (eligible_buys os p)))
      = ahead_of os od"
    using el(2) by (simp add: eligible_buys_def filter_sort ahead_of_def)
  have "sorted (map buy_key (eligible_buys os p))"
    by (simp add: eligible_buys_def flip: buy_key_def)
  moreover have "distinct (map buy_key (eligible_buys os p))"
    using distinct_eligible(1) [OF assms(1), of p]
    by (auto simp: distinct_map inj_on_def buy_key_def)
  ultimately show ?thesis
    using ration_share [OF distinct_eligible(1) [OF assms(1)] _ assms(2) _ _ assms(3), of buy_key]
      wf_batchD(1) [OF assms(1)]
    by (simp add: ahead set_eligible)
qed

lemma ration_sells:
  assumes "wf_batch os" and "0 \<le> v" and "od \<in> set (eligible_sells os p)"
  shows "fill_of (ration v (eligible_sells os p) f) (o_oid od)
    = fill_of f (o_oid od) + share v (ahead_of os od) (o_qty od)"
proof -
  have el: "od \<in> set os" "o_side od = SELL" "o_price od \<le> p"
    using assms(3) by (simp_all add: set_eligible)
  have "filter (\<lambda>x. sell_key x < sell_key od) (filter (\<lambda>x. o_side x = SELL \<and> o_price x \<le> p) os)
      = filter (\<lambda>x. o_side x = SELL \<and> sell_key x < sell_key od) os"
    using el(3) by (auto simp: sell_key_def intro!: filter_cong)
  then have ahead: "sum_list (map o_qty (filter (\<lambda>x. sell_key x < sell_key od) (eligible_sells os p)))
      = ahead_of os od"
    using el(2) by (simp add: eligible_sells_def filter_sort ahead_of_def)
  have "sorted (map sell_key (eligible_sells os p))"
    by (simp add: eligible_sells_def flip: sell_key_def)
  moreover have "distinct (map sell_key (eligible_sells os p))"
    using distinct_eligible(2) [OF assms(1), of p]
    by (auto simp: distinct_map inj_on_def sell_key_def)
  ultimately show ?thesis
    using ration_share [OF distinct_eligible(2) [OF assms(1)] _ assms(2) _ _ assms(3), of sell_key]
      wf_batchD(1) [OF assms(1)]
    by (simp add: ahead set_eligible)
qed

lemma ahead_nonneg: "wf_batch os \<Longrightarrow> 0 \<le> ahead_of os od"
  unfolding ahead_of_def
  using sum_list_filter_nonneg [of os o_qty] by (simp add: wf_batchD)

lemma clear_fill:
  assumes wf: "wf_batch os" and od: "od \<in> set os"
  shows "fill_of (cl_fills (clear os)) (o_oid od) =
    (if eligible (cl_price (clear os)) od
     then share (cl_volume (clear os)) (ahead_of os od) (o_qty od) else 0)"
proof -
  obtain p v i where b: "clear_scan os = (p, v, i)" by (cases "clear_scan os")
  show ?thesis
  proof (cases "v = 0")
    case True
    with b show ?thesis
      using ahead_nonneg [OF wf, of od] by (auto simp: clear_none share_def)
  next
    case False
    have v: "0 \<le> v"
      using clear_scanned [OF wf] False unfolding b
      by (simp add: scanned_def demand_nonneg [OF wf] supply_nonneg [OF wf])
    have other: "fill_of (ration v xs f) (o_oid od) = fill_of f (o_oid od)"
      if "od \<notin> set xs" "set xs \<subseteq> set os" for xs f
    proof (rule ration_other, rule)
      assume "o_oid od \<in> o_oid ` set xs"
      then obtain c where "c \<in> set xs" "o_oid od = o_oid c" by blast
      with that wf_batch_inj [OF wf od, of c] show False by auto
    qed
    have sub: "set (eligible_buys os p) \<subseteq> set os" "set (eligible_sells os p) \<subseteq> set os"
      by (auto simp: set_eligible)
    have "o_side od = BUY \<or> o_side od = SELL"
      using wf od by (simp add: wf_batch_def)
    then show ?thesis
      using ration_buys [OF wf v, of od p] ration_sells [OF wf v, of od p]
        other [OF _ sub(1)] other [OF _ sub(2)] od
      by (elim disjE) (simp_all add: clear_simps [OF b False] eligible_def set_eligible)
  qed
qed

lemma sum_ration:
  assumes "distinct (map o_oid side)" and "\<forall>od\<in>set side. 0 \<le> o_qty od"
    and "0 \<le> v" and "v \<le> sum_list (map o_qty side)"
    and "\<forall>od\<in>set side. fill_of f (o_oid od) = 0"
  shows "sum_list (map (\<lambda>od. fill_of (ration v side f) (o_oid od)) side) = v"
proof -
  have "map (\<lambda>od. fill_of (ration v side f) (o_oid od)) side = alloc v (map o_qty side)"
    using assms(5) ration_nth [OF assms(1,2), of _ v f] by (intro nth_equalityI) simp_all
  then show ?thesis
    using assms(2-4) by (simp add: sum_alloc)
qed

lemma clear_sides_disjoint:
  assumes "wf_batch os" and "a \<in> set (eligible_buys os p)"
  shows "o_oid a \<notin> o_oid ` set (eligible_sells os p)"
proof
  assume "o_oid a \<in> o_oid ` set (eligible_sells os p)"
  then obtain c where c: "c \<in> set (eligible_sells os p)" "o_oid a = o_oid c" by blast
  then have "a = c"
    using assms(2) by (intro wf_batch_inj [OF assms(1)]) (simp_all add: set_eligible)
  with assms(2) c(1) show False by (simp add: set_eligible)
qed

lemma clear_sum_eligible:
  assumes wf: "wf_batch os" and b: "clear_scan os = (p, v, i)" and v0: "v \<noteq> 0"
  shows "sum_list (map (\<lambda>od. fill_of (cl_fills (clear os)) (o_oid od)) (eligible_buys os p)) = v"
    and "sum_list (map (\<lambda>od. fill_of (cl_fills (clear os)) (o_oid od)) (eligible_sells os p)) = v"
proof -
  note q = wf_batchD(1) [OF wf]
  have v: "0 \<le> v" "v \<le> demand_at os p" "v \<le> supply_at os p"
    using clear_scanned [OF wf] v0 unfolding b
    by (simp_all add: scanned_def demand_nonneg [OF wf] supply_nonneg [OF wf])
  have "sum_list (map (\<lambda>od. fill_of (ration v (eligible_buys os p) Map.empty) (o_oid od))
      (eligible_buys os p)) = v"
    using v(2) by (intro sum_ration distinct_eligible wf v(1))
      (simp_all add: set_eligible q demand_at_def eligible_buys_def)
  moreover have "map (\<lambda>od. fill_of (cl_fills (clear os)) (o_oid od)) (eligible_buys os p)
      = map (\<lambda>od. fill_of (ration v (eligible_buys os p) Map.empty) (o_oid od)) (eligible_buys os p)"
    using clear_sides_disjoint [OF wf] by (simp add: clear_simps [OF b v0] ration_other)
  ultimately show "sum_list (map (\<lambda>od. fill_of (cl_fills (clear os)) (o_oid od)) (eligible_buys os p)) = v"
    by (simp only:)
  have "fill_of (ration v (eligible_buys os p) Map.empty) (o_oid od) = 0"
    if "od \<in> set (eligible_sells os p)" for od
  proof -
    have "o_oid od \<notin> o_oid ` set (eligible_buys os p)"
      using that clear_sides_disjoint [OF wf] by (metis image_iff)
    then show ?thesis by (simp add: ration_other)
  qed
  then have "sum_list (map (\<lambda>od. fill_of (cl_fills (clear os)) (o_oid od)) (eligible_sells os p)) = v"
    unfolding clear_simps [OF b v0] clearing.simps using v(3)
    by (intro sum_ration distinct_eligible wf v(1))
      (simp_all add: set_eligible q supply_at_def eligible_sells_def)
  then show "sum_list (map (\<lambda>od. fill_of (cl_fills (clear os)) (o_oid od)) (eligible_sells os p)) = v" .
qed

section \<open>Properties\<close>

text \<open>A small book for the witnesses: two buys, two sells, and a buy below the market.\<close>

definition sample_book :: "order list" where
  "sample_book = [mk_order 1 BUY 105 10, mk_order 2 SELL 100 4, mk_order 3 BUY 101 5,
     mk_order 4 SELL 102 8, mk_order 5 BUY 90 7]"

text \<open>C1: \<open>clear\<close> maximises the matched volume over every price there is, not only the submitted
  ones; when anything trades, the price is a submitted one at which the volume is the smaller
  of demand and supply, and among the submitted prices of that volume it has the least
  imbalance, the lowest price winning a remaining tie.\<close>

theorem clear_maximises_volume:
  assumes "wf_batch os"
  shows "(\<forall>p. min (demand_at os p) (supply_at os p) \<le> cl_volume (clear os)) \<and>
    (cl_volume (clear os) \<noteq> 0 \<longrightarrow>
       cl_price (clear os) \<in> o_price ` set os \<and>
       cl_volume (clear os)
         = min (demand_at os (cl_price (clear os))) (supply_at os (cl_price (clear os))) \<and>
       (\<forall>p\<in>o_price ` set os. min (demand_at os p) (supply_at os p) = cl_volume (clear os) \<longrightarrow>
          \<bar>demand_at os (cl_price (clear os)) - supply_at os (cl_price (clear os))\<bar>
            \<le> \<bar>demand_at os p - supply_at os p\<bar> \<and>
          (\<bar>demand_at os p - supply_at os p\<bar>
             = \<bar>demand_at os (cl_price (clear os)) - supply_at os (cl_price (clear os))\<bar>
           \<longrightarrow> cl_price (clear os) \<le> p)))"
proof -
  obtain p v i where b: "clear_scan os = (p, v, i)" by (cases "clear_scan os")
  have sc: "scanned (vol_at (demand_at os) (supply_at os)) (imb_at (demand_at os) (supply_at os))
      (o_price ` set os) (p, v, i)"
    using clear_scanned [OF assms] by (simp only: b)
  show ?thesis
  proof (cases "v = 0")
    case True
    with b show ?thesis using clear_volume_bound [OF assms] by (simp add: clear_none)
  next
    case False
    with sc have "p \<in> o_price ` set os \<and> v = min (demand_at os p) (supply_at os p) \<and>
      (\<forall>q\<in>o_price ` set os. min (demand_at os q) (supply_at os q) = v \<longrightarrow>
         \<bar>demand_at os p - supply_at os p\<bar> \<le> \<bar>demand_at os q - supply_at os q\<bar> \<and>
         (\<bar>demand_at os q - supply_at os q\<bar> = \<bar>demand_at os p - supply_at os p\<bar> \<longrightarrow> p \<le> q))"
      unfolding scanned_def prod.case by (simp only: if_False) blast
    then show ?thesis
      using clear_volume_bound [OF assms] unfolding clear_simps [OF b False] clearing.simps by blast
  qed
qed

theorem clear_maximises_volume_witness:
  "wf_batch sample_book \<and> cl_volume (clear sample_book) = 10 \<and> cl_price (clear sample_book) = 102 \<and>
   (\<forall>p. min (demand_at sample_book p) (supply_at sample_book p) \<le> 10)"
proof -
  have wf: "wf_batch sample_book" by code_simp
  moreover have "cl_volume (clear sample_book) = 10" "cl_price (clear sample_book) = 102" by code_simp+
  ultimately show ?thesis using clear_maximises_volume [OF wf] by simp
qed

text \<open>C10: the fill of every order in closed form: an order within the clearing price gets what
  is left of the volume after the orders ahead of it on its side (better price, then lower
  oid), up to its quantity; any other order gets nothing. Price-time priority, the limit
  price and no over-fill are all in this equation.\<close>

theorem clear_price_time_priority:
  assumes "wf_batch os" and "od \<in> set os"
  shows "fill_of (cl_fills (clear os)) (o_oid od) =
    (if eligible (cl_price (clear os)) od
     then max 0 (min (o_qty od) (cl_volume (clear os) - ahead_of os od)) else 0)"
  using clear_fill [OF assms] by (simp add: share_def)

theorem clear_price_time_priority_witness:
  "fill_of (cl_fills (clear sample_book)) 4 = 6 \<and> fill_of (cl_fills (clear sample_book)) 3 = 0"
proof -
  have wf: "wf_batch sample_book" by code_simp
  have "fill_of (cl_fills (clear sample_book)) (o_oid (mk_order 4 SELL 102 8)) = 6"
    by (subst clear_price_time_priority [OF wf]) code_simp+
  moreover have "fill_of (cl_fills (clear sample_book)) (o_oid (mk_order 3 BUY 101 5)) = 0"
    by (subst clear_price_time_priority [OF wf]) code_simp+
  ultimately show ?thesis by (simp add: mk_order_def)
qed

text \<open>C11: conservation. The fills of the buys and the fills of the sells each add up to the
  cleared volume, so every unit bought is a unit sold.\<close>

theorem clear_conserves:
  assumes "wf_batch os"
  shows "sum_list (map (\<lambda>od. fill_of (cl_fills (clear os)) (o_oid od)) (filter (\<lambda>od. o_side od = BUY) os))
      = cl_volume (clear os) \<and>
    sum_list (map (\<lambda>od. fill_of (cl_fills (clear os)) (o_oid od)) (filter (\<lambda>od. o_side od = SELL) os))
      = cl_volume (clear os)"
proof -
  obtain p v i where b: "clear_scan os = (p, v, i)" by (cases "clear_scan os")
  let ?g = "\<lambda>od. fill_of (cl_fills (clear os)) (o_oid od)"
  show ?thesis
  proof (cases "v = 0")
    case True
    with b show ?thesis by (simp add: clear_none)
  next
    case False
    have cl: "cl_price (clear os) = p" "cl_volume (clear os) = v"
      by (simp_all add: clear_simps [OF b False])
    have out: "?g od = 0" if "od \<in> set os" "\<not> eligible p od" for od
      using clear_fill [OF assms that(1)] that(2) by (simp add: cl)
    have "sum_list (map ?g (filter (\<lambda>od. o_side od = BUY) os))
        = sum_list (map ?g (filter (\<lambda>od. o_side od = BUY \<and> p \<le> o_price od) os))"
      by (rule sum_list_filter_vanish) (auto simp: eligible_def intro!: out)
    also have "\<dots> = v"
      using clear_sum_eligible(1) [OF assms b False] by (simp add: eligible_buys_def)
    finally have buys: "sum_list (map ?g (filter (\<lambda>od. o_side od = BUY) os)) = v" .
    have "sum_list (map ?g (filter (\<lambda>od. o_side od = SELL) os))
        = sum_list (map ?g (filter (\<lambda>od. o_side od = SELL \<and> o_price od \<le> p) os))"
      by (rule sum_list_filter_vanish) (auto simp: eligible_def intro!: out)
    also have "\<dots> = v"
      using clear_sum_eligible(2) [OF assms b False] by (simp add: eligible_sells_def)
    finally show ?thesis using buys by (simp add: cl)
  qed
qed

theorem clear_conserves_witness:
  "sum_list (map (\<lambda>od. fill_of (cl_fills (clear sample_book)) (o_oid od))
     (filter (\<lambda>od. o_side od = SELL) sample_book)) = 10"
proof -
  have "wf_batch sample_book" by code_simp
  moreover have "cl_volume (clear sample_book) = 10" by code_simp
  ultimately show ?thesis using clear_conserves [of sample_book] by simp
qed

end
