(* ===== verification/Round_Plan.thy ===== *)
theory Round_Plan
  imports Clearing
begin

text \<open>
  \<^verbatim>\<open>src/offchain/round.py\<close>: which queued orders join an auction round. \<open>plan_round\<close> splits the queue
  by whether a sealed order crosses the liquidity that will be submitted; \<open>plan_batch\<close> repeats
  it under a capacity policy until every sealed order in the batch crosses inside the batch.
  The policy is an interface, the locale \<open>fit_policy\<close>, interpreted on the server's
  \<open>cap_batch\<close> in \<open>Seq_Cap\<close>.
\<close>

section \<open>The model\<close>

record 'o round_plan =
  rp_reveal :: "'o list"
  rp_public :: "'o list"
  rp_carry :: "'o list"
  rp_expired :: "'o list"
  rp_deferred :: "'o list"
  rp_overflow :: "'o list"

definition min_opt :: "int list \<Rightarrow> int option" where
  "min_opt xs = (if xs = [] then None else Some (Min (set xs)))"

definition max_opt :: "int list \<Rightarrow> int option" where
  "max_opt xs = (if xs = [] then None else Some (Max (set xs)))"

definition best_opposing :: "'a order_scheme list \<Rightarrow> int option \<times> int option" where
  "best_opposing orders =
     (min_opt (map o_price (filter (\<lambda>od. o_side od = SELL) orders)),
      max_opt (map o_price (filter (\<lambda>od. o_side od = BUY) orders)))"

definition crosses :: "'a order_scheme \<Rightarrow> int option \<Rightarrow> int option \<Rightarrow> bool" where
  "crosses order min_sell max_buy =
     (if o_side order = BUY
      then (case min_sell of None \<Rightarrow> False | Some p \<Rightarrow> p \<le> o_price order)
      else (case max_buy of None \<Rightarrow> False | Some p \<Rightarrow> o_price order \<le> p))"

definition elapsed :: "time \<Rightarrow> 'a order_scheme \<Rightarrow> bool" where
  "elapsed now od = (case o_expiry od of None \<Rightarrow> False | Some e \<Rightarrow> e \<le> now)"

definition ready_pred :: "('a order_scheme \<Rightarrow> bool) option \<Rightarrow> 'a order_scheme \<Rightarrow> bool" where
  "ready_pred sealed_ready = (case sealed_ready of None \<Rightarrow> (\<lambda>_. True) | Some r \<Rightarrow> r)"

definition plan_round ::
  "'a order_scheme list \<Rightarrow> 'a order_scheme list \<Rightarrow> time \<Rightarrow> ('a order_scheme \<Rightarrow> bool) option
   \<Rightarrow> 'a order_scheme round_plan" where
  "plan_round pending resting now sealed_ready =
     (let public = filter (\<lambda>od. \<not> o_sealed od) pending;
          sealed = filter o_sealed pending;
          ready = filter (ready_pred sealed_ready) sealed;
          not_ready = filter (\<lambda>od. \<not> ready_pred sealed_ready od) sealed;
          everything = resting @ public @ ready;
          (min_sell, max_buy) = best_opposing everything;
          cr = (\<lambda>od. crosses od min_sell max_buy)
      in \<lparr>rp_reveal = filter cr ready,
          rp_public = public,
          rp_carry = filter (\<lambda>od. \<not> cr od \<and> \<not> elapsed now od) ready,
          rp_expired = filter (\<lambda>od. \<not> cr od \<and> elapsed now od) ready
                       @ filter (elapsed now) not_ready,
          rp_deferred = filter (\<lambda>od. \<not> elapsed now od) not_ready,
          rp_overflow = []\<rparr>)"

definition FIT_PASSES :: nat where "FIT_PASSES = 4"

abbreviation uids :: "'a order_scheme list \<Rightarrow> nat set" where
  "uids os \<equiv> o_uid ` set os"

text \<open>The loop of \<open>plan_batch\<close> from pass \<open>FIT_PASSES - k\<close> on; \<open>prev\<close> is the plan of the pass
  before (the plan of the whole queue at pass 0, where it is not read).\<close>

fun fit_loop ::
  "('a order_scheme list \<Rightarrow> 'a order_scheme list \<times> 'a order_scheme list)
   \<Rightarrow> 'a order_scheme list \<Rightarrow> 'a order_scheme list \<Rightarrow> time \<Rightarrow> nat
   \<Rightarrow> 'a order_scheme round_plan \<Rightarrow> nat set \<Rightarrow> 'a order_scheme list \<Rightarrow> 'a order_scheme list
   \<Rightarrow> 'a order_scheme round_plan \<times> 'a order_scheme list \<times> 'a order_scheme list" where
  "fit_loop fit pending resting now k prev crossing carry expired =
     (let crossing = (if k = 0 then uids (rp_reveal prev) else crossing);
          cands = filter (\<lambda>od. \<not> o_sealed od \<or> o_uid od \<in> crossing) pending;
          batch = fst (fit cands);
          plan = plan_round batch resting now None;
          stuck = rp_carry plan @ rp_expired plan
      in if stuck = [] then (plan, carry, expired)
         else (case k of
             0 \<Rightarrow> (plan, carry @ rp_carry plan, expired @ rp_expired plan)
           | Suc k' \<Rightarrow> fit_loop fit pending resting now k' plan (crossing - uids stuck)
                        (carry @ rp_carry plan) (expired @ rp_expired plan)))"

declare fit_loop.simps [simp del]

definition plan_batch ::
  "'a order_scheme list \<Rightarrow> 'a order_scheme list
   \<Rightarrow> ('a order_scheme list \<Rightarrow> 'a order_scheme list \<times> 'a order_scheme list)
   \<Rightarrow> time \<Rightarrow> ('a order_scheme \<Rightarrow> bool) option \<Rightarrow> 'a order_scheme round_plan" where
  "plan_batch pending resting fit now sealed_ready =
     (let full = plan_round pending resting now sealed_ready;
          (plan, carry, expired) = fit_loop fit pending resting now FIT_PASSES full
             (uids (rp_reveal full)) (rp_carry full) (rp_expired full);
          placed = uids (rp_reveal plan @ rp_public plan @ carry @ expired @ rp_deferred full)
      in \<lparr>rp_reveal = rp_reveal plan, rp_public = rp_public plan, rp_carry = carry,
          rp_expired = expired, rp_deferred = rp_deferred full,
          rp_overflow = filter (\<lambda>od. o_uid od \<notin> placed) pending\<rparr>)"

section \<open>Crossing\<close>

definition wf_sides :: "'a order_scheme list \<Rightarrow> bool" where
  "wf_sides os \<longleftrightarrow> (\<forall>od\<in>set os. o_side od = BUY \<or> o_side od = SELL)"

text \<open>\<open>a\<close> and \<open>b\<close> can trade with each other.\<close>

definition matches :: "'a order_scheme \<Rightarrow> 'a order_scheme \<Rightarrow> bool" where
  "matches a b \<longleftrightarrow> o_side a = BUY \<and> o_side b = SELL \<and> o_price b \<le> o_price a
     \<or> o_side a = SELL \<and> o_side b = BUY \<and> o_price a \<le> o_price b"

lemma matches_sym: "matches a b \<longleftrightarrow> matches b a"
  by (auto simp: matches_def)

lemma min_opt_le: "(case min_opt xs of None \<Rightarrow> False | Some m \<Rightarrow> m \<le> a) \<longleftrightarrow> (\<exists>x\<in>set xs. x \<le> a)"
  by (simp add: min_opt_def Min_le_iff)

lemma max_opt_ge: "(case max_opt xs of None \<Rightarrow> False | Some m \<Rightarrow> a \<le> m) \<longleftrightarrow> (\<exists>x\<in>set xs. a \<le> x)"
  by (simp add: max_opt_def Max_ge_iff)

lemma crosses_iff:
  assumes "o_side od = BUY \<or> o_side od = SELL"
  shows "crosses od (fst (best_opposing os)) (snd (best_opposing os))
    \<longleftrightarrow> (\<exists>x\<in>set os. matches od x)"
  using assms by (auto simp: crosses_def best_opposing_def min_opt_le max_opt_ge matches_def)

definition ready_of :: "'a order_scheme list \<Rightarrow> ('a order_scheme \<Rightarrow> bool) option \<Rightarrow> 'a order_scheme list" where
  "ready_of pending r = filter (ready_pred r) (filter o_sealed pending)"

abbreviation public_of :: "'a order_scheme list \<Rightarrow> 'a order_scheme list" where
  "public_of pending \<equiv> filter (\<lambda>od. \<not> o_sealed od) pending"

text \<open>The submitted liquidity a plan is judged against.\<close>

definition liquidity :: "'a order_scheme list \<Rightarrow> 'a order_scheme list \<Rightarrow> ('a order_scheme \<Rightarrow> bool) option
    \<Rightarrow> 'a order_scheme list" where
  "liquidity pending resting r = resting @ public_of pending @ ready_of pending r"

abbreviation crosses_in :: "'a order_scheme list \<Rightarrow> 'a order_scheme \<Rightarrow> bool" where
  "crosses_in os od \<equiv> crosses od (fst (best_opposing os)) (snd (best_opposing os))"

lemma plan_round_simps:
  shows "rp_reveal (plan_round pending resting now r) = filter (crosses_in (liquidity pending resting r)) (ready_of pending r)"
    and "rp_public (plan_round pending resting now r) = public_of pending"
    and "rp_carry (plan_round pending resting now r)
         = filter (\<lambda>od. \<not> crosses_in (liquidity pending resting r) od \<and> \<not> elapsed now od) (ready_of pending r)"
    and "rp_expired (plan_round pending resting now r)
         = filter (\<lambda>od. \<not> crosses_in (liquidity pending resting r) od \<and> elapsed now od) (ready_of pending r)
           @ filter (elapsed now) (filter (\<lambda>od. \<not> ready_pred r od) (filter o_sealed pending))"
    and "rp_deferred (plan_round pending resting now r)
         = filter (\<lambda>od. \<not> elapsed now od) (filter (\<lambda>od. \<not> ready_pred r od) (filter o_sealed pending))"
    and "rp_overflow (plan_round pending resting now r) = []"
  by (simp_all add: plan_round_def Let_def liquidity_def ready_of_def split: prod.split)

lemma wf_sides_liquidity:
  "wf_sides pending \<Longrightarrow> od \<in> set (ready_of pending r) \<Longrightarrow> o_side od = BUY \<or> o_side od = SELL"
  by (auto simp: wf_sides_def ready_of_def)

lemma reveal_iff:
  assumes "wf_sides pending"
  shows "od \<in> set (rp_reveal (plan_round pending resting now r)) \<longleftrightarrow>
    od \<in> set (ready_of pending r) \<and> (\<exists>x\<in>set (liquidity pending resting r). matches od x)"
  using crosses_iff wf_sides_liquidity [OF assms] by (auto simp: plan_round_simps(1))

text \<open>Crossing is mutual: a revealed order's counterparty is itself in the submitted set.\<close>

lemma reveal_counterparty:
  assumes "wf_sides pending" and "od \<in> set (rp_reveal (plan_round pending resting now r))"
  shows "\<exists>x\<in>set (resting @ public_of pending @ rp_reveal (plan_round pending resting now r)).
    matches od x"
proof -
  from assms obtain x where x: "x \<in> set (liquidity pending resting r)" "matches od x"
    and od: "od \<in> set (ready_of pending r)"
    using reveal_iff by blast
  show ?thesis
  proof (cases "x \<in> set (resting @ public_of pending)")
    case True
    with x(2) show ?thesis by auto
  next
    case False
    with x have "x \<in> set (ready_of pending r)" by (auto simp: liquidity_def)
    moreover have "od \<in> set (liquidity pending resting r)" using od by (simp add: liquidity_def)
    ultimately have "x \<in> set (rp_reveal (plan_round pending resting now r))"
      using x(2) matches_sym reveal_iff [OF assms(1)] by blast
    with x(2) show ?thesis by auto
  qed
qed

lemma plan_round_partition:
  fixes pending resting :: "'a order_scheme list"
  assumes p: "p = plan_round pending resting now r"
  shows "mset pending = mset (rp_reveal p) + mset (rp_public p) + mset (rp_carry p)
    + mset (rp_expired p) + mset (rp_deferred p)"
proof -
  have "mset xs = mset (filter cr (ready_of xs r)) + mset (public_of xs)
      + mset (filter (\<lambda>od. \<not> cr od \<and> \<not> elapsed now od) (ready_of xs r))
      + mset (filter (\<lambda>od. \<not> cr od \<and> elapsed now od) (ready_of xs r)
          @ filter (elapsed now) (filter (\<lambda>od. \<not> ready_pred r od) (filter o_sealed xs)))
      + mset (filter (\<lambda>od. \<not> elapsed now od) (filter (\<lambda>od. \<not> ready_pred r od) (filter o_sealed xs)))"
    for xs :: "'a order_scheme list" and cr
    by (rule multiset_eqI) (simp add: ready_of_def)
  from this [of pending "crosses_in (liquidity pending resting r)"] show ?thesis
    unfolding p plan_round_simps .
qed

section \<open>Orders that cross nothing do not move the clearing\<close>

lemma scanned_unique:
  assumes "scanned v w P a" and "scanned v w P b"
  shows "a = b"
proof -
  obtain p x i q y j where ab: "a = (p, x, i)" "b = (q, y, j)" by (cases a, cases b)
  consider "x = 0" "y = 0" | "x = 0" "y \<noteq> 0" | "x \<noteq> 0" "y = 0" | "x \<noteq> 0" "y \<noteq> 0" by blast
  then show ?thesis
  proof cases
    case 4
    have A: "p \<in> P \<and> x = v p \<and> i = Some (w p) \<and>
        (\<forall>r\<in>P. v r \<le> x \<and> (v r = x \<longrightarrow> w p \<le> w r \<and> (w r = w p \<longrightarrow> p \<le> r)))"
      and B: "q \<in> P \<and> y = v q \<and> j = Some (w q) \<and>
        (\<forall>r\<in>P. v r \<le> y \<and> (v r = y \<longrightarrow> w q \<le> w r \<and> (w r = w q \<longrightarrow> q \<le> r)))"
      using assms unfolding ab scanned_pos [OF 4(1)] scanned_pos [OF 4(2)] by blast+
    then have "x = y" by (meson antisym)
    moreover have "w p = w q" using A B \<open>x = y\<close> by (metis antisym)
    ultimately show ?thesis using A B unfolding ab by (metis antisym)
  qed (use assms in \<open>unfold ab, auto simp: scanned_zero scanned_pos\<close>)
qed

text \<open>Two scans agree if, wherever either trades, volume and imbalance agree, and each
  candidate of one that trades is a candidate of the other.\<close>

lemma scanned_transfer:
  assumes "scanned v w P b" and "Q \<subseteq> P" and "\<forall>p. 0 \<le> v p \<and> 0 \<le> v' p"
    and "\<And>p. 0 < v p \<or> 0 < v' p \<Longrightarrow> v' p = v p \<and> w' p = w p"
    and "\<And>p. p \<in> P \<Longrightarrow> 0 < v p \<Longrightarrow> p \<in> Q"
  shows "scanned v' w' Q b"
proof -
  have eq: "v' p = v p" for p
    using assms(3,4) by (metis order.not_eq_order_implies_strict)
  have weq: "0 < v p \<Longrightarrow> w' p = w p" for p
    using assms(4) by blast
  obtain bp bv bi where b: "b = (bp, bv, bi)" by (cases b)
  show ?thesis
  proof (cases "bv = 0")
    case True
    with assms(1,2) show ?thesis unfolding b by (auto simp: scanned_def eq)
  next
    case False
    have B: "0 < bv \<and> bp \<in> P \<and> bv = v bp \<and> bi = Some (w bp) \<and>
        (\<forall>r\<in>P. v r \<le> bv \<and> (v r = bv \<longrightarrow> w bp \<le> w r \<and> (w r = w bp \<longrightarrow> bp \<le> r)))"
      using assms(1) unfolding b scanned_pos [OF False] .
    then have "bp \<in> Q" "w' bp = w bp" "\<And>r. v r = bv \<Longrightarrow> w' r = w r"
      using assms(5) weq by simp_all
    with B assms(2) show ?thesis
      unfolding b scanned_pos [OF False] eq by (metis subset_iff)
  qed
qed

lemma wf_batch_filter: "wf_batch (xs @ ys) \<Longrightarrow> wf_batch (xs @ filter P ys)"
  by (auto simp: wf_batch_def distinct_map_filter)

lemma filter_append_drop:
  assumes "\<And>y. y \<in> set ys \<Longrightarrow> \<not> P y \<Longrightarrow> \<not> Q y"
  shows "filter Q (xs @ filter P ys) = filter Q (xs @ ys)"
  using assms by (induction ys) auto

lemma supply_ex: "supply_at os p \<noteq> 0 \<Longrightarrow> \<exists>x\<in>set os. o_side x = SELL \<and> o_price x \<le> p"
  by (rule ccontr) (auto simp: supply_at_def filter_False)

lemma demand_ex: "demand_at os p \<noteq> 0 \<Longrightarrow> \<exists>x\<in>set os. o_side x = BUY \<and> p \<le> o_price x"
  by (rule ccontr) (auto simp: demand_at_def filter_False)

text \<open>\<open>P\<close> drops only orders of \<open>ys\<close> that can trade with nobody.\<close>

definition idle_drop :: "'a order_scheme list \<Rightarrow> 'a order_scheme list \<Rightarrow> ('a order_scheme \<Rightarrow> bool) \<Rightarrow> bool" where
  "idle_drop xs ys P \<longleftrightarrow> (\<forall>y\<in>set ys. \<not> P y \<longrightarrow> (\<forall>x\<in>set (xs @ ys). \<not> matches y x))"

lemma idle_drop_no_buy:
  assumes "idle_drop xs ys P" and "x \<in> set (xs @ ys)" and "o_side x = SELL" and "o_price x \<le> p"
    and "y \<in> set ys" and "\<not> P y"
  shows "\<not> (o_side y = BUY \<and> p \<le> o_price y)"
proof -
  have "\<not> matches y x" using assms by (simp add: idle_drop_def)
  then show ?thesis using assms(3,4) by (auto simp: matches_def)
qed

lemma idle_drop_no_sell:
  assumes "idle_drop xs ys P" and "x \<in> set (xs @ ys)" and "o_side x = BUY" and "p \<le> o_price x"
    and "y \<in> set ys" and "\<not> P y"
  shows "\<not> (o_side y = SELL \<and> o_price y \<le> p)"
proof -
  have "\<not> matches y x" using assms by (simp add: idle_drop_def)
  then show ?thesis using assms(3,4) by (auto simp: matches_def)
qed

text \<open>Some order on each side is within \<open>p\<close>.\<close>

definition two_sided :: "'a order_scheme list \<Rightarrow> int \<Rightarrow> bool" where
  "two_sided os p \<longleftrightarrow> (\<exists>x\<in>set os. o_side x = SELL \<and> o_price x \<le> p) \<and> (\<exists>x\<in>set os. o_side x = BUY \<and> p \<le> o_price x)"

lemma two_sidedI: "0 < vol_at (demand_at os) (supply_at os) p \<Longrightarrow> two_sided os p"
  using supply_ex [of os p] demand_ex [of os p] by (auto simp: two_sided_def)

lemma two_sided_filter: "two_sided (xs @ filter P ys) p \<Longrightarrow> two_sided (xs @ ys) p"
  by (auto simp: two_sided_def)

lemma idle_drop_filters:
  assumes "idle_drop xs ys P" and "two_sided (xs @ ys) p"
  shows "filter (\<lambda>od. o_side od = BUY \<and> p \<le> o_price od) (xs @ filter P ys)
      = filter (\<lambda>od. o_side od = BUY \<and> p \<le> o_price od) (xs @ ys)"
    and "filter (\<lambda>od. o_side od = SELL \<and> o_price od \<le> p) (xs @ filter P ys)
      = filter (\<lambda>od. o_side od = SELL \<and> o_price od \<le> p) (xs @ ys)"
proof -
  obtain s t where st: "s \<in> set (xs @ ys)" "o_side s = SELL" "o_price s \<le> p"
    "t \<in> set (xs @ ys)" "o_side t = BUY" "p \<le> o_price t"
    using assms(2) unfolding two_sided_def by blast
  show "filter (\<lambda>od. o_side od = BUY \<and> p \<le> o_price od) (xs @ filter P ys)
      = filter (\<lambda>od. o_side od = BUY \<and> p \<le> o_price od) (xs @ ys)"
    by (intro filter_append_drop idle_drop_no_buy [OF assms(1) st(1-3)])
  show "filter (\<lambda>od. o_side od = SELL \<and> o_price od \<le> p) (xs @ filter P ys)
      = filter (\<lambda>od. o_side od = SELL \<and> o_price od \<le> p) (xs @ ys)"
    by (intro filter_append_drop idle_drop_no_sell [OF assms(1) st(4-6)])
qed

lemma idle_drop_agree:
  assumes "idle_drop xs ys P"
    and "0 < vol_at (demand_at (xs @ ys)) (supply_at (xs @ ys)) p
       \<or> 0 < vol_at (demand_at (xs @ filter P ys)) (supply_at (xs @ filter P ys)) p"
  shows "demand_at (xs @ filter P ys) p = demand_at (xs @ ys) p"
    and "supply_at (xs @ filter P ys) p = supply_at (xs @ ys) p"
proof -
  have "two_sided (xs @ ys) p"
    using assms(2) two_sidedI two_sided_filter by blast
  from idle_drop_filters [OF assms(1) this]
  show "demand_at (xs @ filter P ys) p = demand_at (xs @ ys) p"
    and "supply_at (xs @ filter P ys) p = supply_at (xs @ ys) p"
    by (simp_all only: demand_at_def supply_at_def)
qed

lemma idle_drop_kept:
  assumes "wf_batch (xs @ ys)" and "idle_drop xs ys P"
    and "p \<in> o_price ` set (xs @ ys)" and "0 < vol_at (demand_at (xs @ ys)) (supply_at (xs @ ys)) p"
  shows "p \<in> o_price ` set (xs @ filter P ys)"
proof -
  from assms(3) obtain x where x: "x \<in> set (xs @ ys)" "p = o_price x" by blast
  have "o_side x = BUY \<or> o_side x = SELL" using assms(1) x(1) by (simp add: wf_batch_def)
  then have "\<exists>z\<in>set (xs @ ys). matches x z"
    using two_sidedI [OF assms(4)] x(2) by (auto simp: matches_def two_sided_def)
  with assms(2) x show ?thesis by (auto simp: idle_drop_def)
qed

lemma idle_drop_scan:
  assumes wf: "wf_batch (xs @ ys)" and idle: "idle_drop xs ys P"
  shows "clear_scan (xs @ filter P ys) = clear_scan (xs @ ys)"
proof -
  let ?os = "xs @ ys" and ?os' = "xs @ filter P ys"
  note wf' = wf_batch_filter [OF wf, of P]
  have "scanned (vol_at (demand_at ?os') (supply_at ?os')) (imb_at (demand_at ?os') (supply_at ?os'))
      (o_price ` set ?os') (clear_scan ?os)"
  proof (rule scanned_transfer [OF clear_scanned [OF wf]])
    show "o_price ` set ?os' \<subseteq> o_price ` set ?os" by auto
    show "\<forall>p. 0 \<le> vol_at (demand_at ?os) (supply_at ?os) p \<and> 0 \<le> vol_at (demand_at ?os') (supply_at ?os') p"
      using wf wf' by (simp add: demand_nonneg supply_nonneg)
    show "vol_at (demand_at ?os') (supply_at ?os') p = vol_at (demand_at ?os) (supply_at ?os) p \<and>
        imb_at (demand_at ?os') (supply_at ?os') p = imb_at (demand_at ?os) (supply_at ?os) p"
      if "0 < vol_at (demand_at ?os) (supply_at ?os) p \<or> 0 < vol_at (demand_at ?os') (supply_at ?os') p" for p
      using idle_drop_agree [OF idle that] by simp
  qed (rule idle_drop_kept [OF wf idle])
  then show ?thesis
    using clear_scanned [OF wf'] scanned_unique by blast
qed

lemma clear_drop_idle:
  assumes wf: "wf_batch (xs @ ys)" and idle: "idle_drop xs ys P"
  shows "clear (xs @ filter P ys) = clear (xs @ ys)"
proof -
  obtain p v i where b: "clear_scan (xs @ ys) = (p, v, i)" by (cases "clear_scan (xs @ ys)")
  note b' = idle_drop_scan [OF wf idle, unfolded b]
  show ?thesis
  proof (cases "v = 0")
    case True
    with b b' show ?thesis by (simp add: clear_none)
  next
    case False
    have "two_sided (xs @ ys) p"
      using clear_scanned [OF wf] unfolding b scanned_pos [OF False]
      by (intro two_sidedI) (elim conjE, simp only:)
    then show ?thesis
      using idle_drop_filters [OF idle, of p] clear_simps [OF b False] clear_simps [OF b' False]
      by (simp only: eligible_buys_def eligible_sells_def)
  qed
qed

section \<open>The bounded batch\<close>

text \<open>The capacity policy's contract: the batch is taken from the candidates, and dropping sealed
  candidates never drops another one it admitted.\<close>

locale fit_policy =
  fixes fit :: "'a order_scheme list \<Rightarrow> 'a order_scheme list \<times> 'a order_scheme list"
  assumes fit_sub: "mset (fst (fit cs)) \<subseteq># mset cs"
    and fit_keep: "(\<And>x. x \<in> set cs \<Longrightarrow> \<not> P x \<Longrightarrow> o_sealed x) \<Longrightarrow>
      set (filter P (fst (fit cs))) \<subseteq> set (fst (fit (filter P cs)))"
begin

lemma fit_set: "x \<in> set (fst (fit cs)) \<Longrightarrow> x \<in> set cs"
  using fit_sub [of cs] by (metis in_multiset_in_set mset_subset_eqD)

text \<open>The plan of one pass whose sealed candidates are those with uid in \<open>C\<close>.\<close>

definition pass_cands :: "'a order_scheme list \<Rightarrow> nat set \<Rightarrow> 'a order_scheme list" where
  "pass_cands pending C = filter (\<lambda>od. \<not> o_sealed od \<or> o_uid od \<in> C) pending"

definition pass_plan :: "'a order_scheme list \<Rightarrow> 'a order_scheme list \<Rightarrow> time \<Rightarrow> nat set \<Rightarrow> 'a order_scheme round_plan" where
  "pass_plan pending resting now C = plan_round (fst (fit (pass_cands pending C))) resting now None"

lemma batch_cands:
  "od \<in> set (fst (fit (pass_cands pending C))) \<Longrightarrow> od \<in> set pending \<and> (o_sealed od \<longrightarrow> o_uid od \<in> C)"
  using fit_set [of od "pass_cands pending C"] by (auto simp: pass_cands_def)

lemma wf_sides_batch: "wf_sides pending \<Longrightarrow> wf_sides (fst (fit (pass_cands pending C)))"
  using batch_cands [of _ pending C] by (simp add: wf_sides_def)

lemma ready_None: "ready_of os None = filter o_sealed os"
  by (simp add: ready_of_def ready_pred_def)

text \<open>Narrowing the candidates to a set that still holds every reveal keeps every reveal.\<close>

lemma pass_keeps_reveals:
  assumes sides: "wf_sides pending" and "C' \<subseteq> C"
    and "uids (rp_reveal (pass_plan pending resting now C)) \<subseteq> C'"
  shows "set (rp_reveal (pass_plan pending resting now C))
    \<subseteq> set (rp_reveal (pass_plan pending resting now C'))"
proof
  let ?B = "fst (fit (pass_cands pending C))" and ?B' = "fst (fit (pass_cands pending C'))"
  let ?P = "\<lambda>od. \<not> o_sealed od \<or> o_uid od \<in> C'"
  note wfB = wf_sides_batch [OF sides, of C] wf_sides_batch [OF sides, of C']
  have cands: "pass_cands pending C' = filter ?P (pass_cands pending C)"
    using assms(2) by (auto simp: pass_cands_def intro!: filter_cong)
  have keep: "od \<in> set ?B'" if "od \<in> set ?B" "?P od" for od
    using fit_keep [of "pass_cands pending C" ?P] that unfolding cands [symmetric] by auto
  fix od assume od: "od \<in> set (rp_reveal (pass_plan pending resting now C))"
  have inB': "x \<in> set ?B'" if "x \<in> set (public_of ?B @ rp_reveal (pass_plan pending resting now C))" for x
    using that assms(3) by (intro keep) (auto simp: pass_plan_def plan_round_simps ready_None)
  from od obtain x where x: "matches od x"
    "x \<in> set (resting @ public_of ?B @ rp_reveal (pass_plan pending resting now C))"
    using reveal_counterparty [OF wfB(1)] unfolding pass_plan_def by blast
  have sealed: "o_sealed od"
    using od by (simp add: pass_plan_def plan_round_simps ready_None)
  have "x \<in> set (liquidity ?B' resting None)"
    using x(2) inB' by (auto simp: liquidity_def ready_None)
  moreover have "od \<in> set (ready_of ?B' None)"
    using inB' od sealed by (simp add: ready_None)
  ultimately show "od \<in> set (rp_reveal (pass_plan pending resting now C'))"
    unfolding pass_plan_def reveal_iff [OF wfB(2)] using x(1) by blast
qed

lemma distinct_batch:
  assumes "distinct pending"
  shows "distinct (fst (fit (pass_cands pending C)))"
proof -
  have "distinct (pass_cands pending C)" using assms by (simp add: pass_cands_def)
  then show ?thesis
    by (rule distinct_subseteq_mset [OF fit_sub])
qed

lemma pass_members:
  assumes "od \<in> set (rp_reveal (pass_plan pending resting now C))
    \<or> od \<in> set (rp_carry (pass_plan pending resting now C))
    \<or> od \<in> set (rp_expired (pass_plan pending resting now C))"
  shows "od \<in> set pending \<and> o_sealed od \<and> o_uid od \<in> C"
  using assms batch_cands [of od pending C]
  by (auto simp: pass_plan_def plan_round_simps ready_None ready_pred_def)

abbreviation stuck_of :: "'a order_scheme round_plan \<Rightarrow> 'a order_scheme list" where
  "stuck_of plan \<equiv> rp_carry plan @ rp_expired plan"

lemma stuck_not_revealed:
  "od \<in> set (stuck_of (pass_plan pending resting now C)) \<Longrightarrow>
   od \<notin> set (rp_reveal (pass_plan pending resting now C))"
  by (auto simp: pass_plan_def plan_round_simps ready_pred_def)

lemma distinct_stuck: "distinct pending \<Longrightarrow> distinct (stuck_of (pass_plan pending resting now C))"
  using distinct_batch [of pending C]
  by (auto simp: pass_plan_def plan_round_simps ready_None ready_pred_def)

text \<open>After a pass over exactly the reveals of the pass before, nothing is stuck.\<close>

lemma last_pass_exact:
  assumes "wf_sides pending" and inj: "inj_on o_uid (set pending)"
  shows "stuck_of (pass_plan pending resting now (uids (rp_reveal (pass_plan pending resting now C)))) = []"
proof (rule ccontr)
  let ?R = "rp_reveal (pass_plan pending resting now C)"
  let ?plan = "pass_plan pending resting now (uids ?R)"
  assume "stuck_of ?plan \<noteq> []"
  then obtain od where od: "od \<in> set (stuck_of ?plan)" by (meson last_in_set)
  then have mem: "od \<in> set pending" "o_uid od \<in> uids ?R"
    using pass_members [of od pending resting now "uids ?R"] by auto
  then obtain x where x: "x \<in> set ?R" "o_uid od = o_uid x" by blast
  then have "x \<in> set pending" using pass_members [of x pending resting now C] by blast
  with x mem(1) have "od \<in> set ?R" using inj_onD [OF inj x(2)] by simp
  moreover have "set ?R \<subseteq> set (rp_reveal ?plan)"
    using pass_members by (intro pass_keeps_reveals assms(1)) blast+
  ultimately show False using stuck_not_revealed [OF od] by blast
qed

text \<open>What the loop returns: an exact pass over some of the crossing orders, and the orders it
  took out on the way.\<close>

definition exact_from :: "'a order_scheme list \<Rightarrow> 'a order_scheme list \<Rightarrow> time \<Rightarrow> nat set
    \<Rightarrow> 'a order_scheme list \<Rightarrow> 'a order_scheme list
    \<Rightarrow> 'a order_scheme round_plan \<times> 'a order_scheme list \<times> 'a order_scheme list \<Rightarrow> bool" where
  "exact_from pending resting now C carry expired r \<longleftrightarrow>
     (\<exists>C' a b. C' \<subseteq> C \<and> r = (pass_plan pending resting now C', carry @ a, expired @ b) \<and>
        stuck_of (pass_plan pending resting now C') = [] \<and> distinct (a @ b) \<and>
        (\<forall>od\<in>set (a @ b). od \<in> set pending \<and> o_sealed od \<and> o_uid od \<in> C - C'))"

lemma exact_from_stop:
  "C' \<subseteq> C \<Longrightarrow> stuck_of (pass_plan pending resting now C') = [] \<Longrightarrow>
   exact_from pending resting now C carry expired (pass_plan pending resting now C', carry, expired)"
  unfolding exact_from_def by (rule exI [of _ C']) simp

lemma exact_from_step:
  assumes "distinct pending" and inj: "inj_on o_uid (set pending)"
    and p: "p = pass_plan pending resting now C"
    and ex: "exact_from pending resting now (C - uids (stuck_of p)) (carry @ rp_carry p) (expired @ rp_expired p) r"
  shows "exact_from pending resting now C carry expired r"
proof -
  obtain C' a b where *: "C' \<subseteq> C - uids (stuck_of p)"
    "r = (pass_plan pending resting now C', (carry @ rp_carry p) @ a, (expired @ rp_expired p) @ b)"
    "stuck_of (pass_plan pending resting now C') = []" "distinct (a @ b)"
    "\<forall>od\<in>set (a @ b). od \<in> set pending \<and> o_sealed od \<and> o_uid od \<in> C - uids (stuck_of p) - C'"
    using ex unfolding exact_from_def by blast
  have mem: "od \<in> set pending \<and> o_sealed od \<and> o_uid od \<in> C" if "od \<in> set (stuck_of p)" for od
    using that pass_members [of od pending resting now C] unfolding p by auto
  have "distinct (stuck_of p)" unfolding p by (rule distinct_stuck [OF assms(1)])
  moreover have "set (stuck_of p) \<inter> set (a @ b) = {}" using *(5) by blast
  ultimately have "distinct ((rp_carry p @ a) @ (rp_expired p @ b))"
    using *(4) by auto
  moreover have "\<forall>od\<in>set ((rp_carry p @ a) @ (rp_expired p @ b)).
      od \<in> set pending \<and> o_sealed od \<and> o_uid od \<in> C - C'"
    using *(1,5) mem by (auto 0 3)
  ultimately show ?thesis
    using *(1-3) unfolding exact_from_def
    by (intro exI [of _ C'] exI [of _ "rp_carry p @ a"] exI [of _ "rp_expired p @ b"]) auto
qed

lemma fit_loop_pass:
  "fit_loop fit pending resting now k prev C carry expired =
     (let C' = (if k = 0 then uids (rp_reveal prev) else C); p = pass_plan pending resting now C' in
      if stuck_of p = [] then (p, carry, expired)
      else (case k of 0 \<Rightarrow> (p, carry @ rp_carry p, expired @ rp_expired p)
            | Suc k' \<Rightarrow> fit_loop fit pending resting now k' p (C' - uids (stuck_of p))
                          (carry @ rp_carry p) (expired @ rp_expired p)))"
  by (subst fit_loop.simps) (simp only: Let_def pass_cands_def pass_plan_def)

lemma fit_loop_exact:
  assumes sides: "wf_sides pending" and dist: "distinct pending" and inj: "inj_on o_uid (set pending)"
  shows "(k = 0 \<Longrightarrow> (\<exists>C0. prev = pass_plan pending resting now C0) \<and> uids (rp_reveal prev) \<subseteq> C) \<Longrightarrow>
    exact_from pending resting now C carry expired
      (fit_loop fit pending resting now k prev C carry expired)"
proof (induction k arbitrary: prev C carry expired)
  case 0
  then obtain C0 where C0: "prev = pass_plan pending resting now C0" "uids (rp_reveal prev) \<subseteq> C" by blast
  have "fit_loop fit pending resting now 0 prev C carry expired
      = (pass_plan pending resting now (uids (rp_reveal prev)), carry, expired)"
    using last_pass_exact [OF sides inj, of resting now C0]
    by (subst fit_loop_pass) (simp add: Let_def C0(1))
  then show ?case
    using C0 last_pass_exact [OF sides inj, of resting now C0] by (auto intro: exact_from_stop)
next
  case (Suc k)
  let ?p = "pass_plan pending resting now C"
  have unfold: "fit_loop fit pending resting now (Suc k) prev C carry expired =
      (if stuck_of ?p = [] then (?p, carry, expired)
       else fit_loop fit pending resting now k ?p (C - uids (stuck_of ?p))
              (carry @ rp_carry ?p) (expired @ rp_expired ?p))"
    by (subst fit_loop_pass) (simp add: Let_def)
  show ?case
  proof (cases "stuck_of ?p = []")
    case True
    show ?thesis unfolding unfold if_P [OF True] by (rule exact_from_stop [OF order.refl True])
  next
    case False
    have "uids (rp_reveal ?p) \<subseteq> C - uids (stuck_of ?p)"
    proof (intro subsetI DiffI)
      fix u assume "u \<in> uids (rp_reveal ?p)"
      then obtain od where od: "od \<in> set (rp_reveal ?p)" "u = o_uid od" by blast
      then show "u \<in> C" using pass_members by blast
      show "u \<notin> uids (stuck_of ?p)"
      proof
        assume "u \<in> uids (stuck_of ?p)"
        then obtain x where x: "x \<in> set (stuck_of ?p)" "u = o_uid x" by blast
        moreover have "x \<in> set pending" "od \<in> set pending"
          using x(1) od(1) pass_members [of x pending resting now C] pass_members [of od pending resting now C]
          by auto
        ultimately show False using od stuck_not_revealed [of x pending resting now C] inj
          by (metis inj_onD)
      qed
    qed
    then have "exact_from pending resting now (C - uids (stuck_of ?p)) (carry @ rp_carry ?p)
        (expired @ rp_expired ?p) (fit_loop fit pending resting now k ?p (C - uids (stuck_of ?p))
          (carry @ rp_carry ?p) (expired @ rp_expired ?p))"
      by (intro Suc.IH conjI) blast
    then show ?thesis
      unfolding unfold if_not_P [OF False] by (rule exact_from_step [OF dist inj refl])
  qed
qed

lemma plan_batch_exact:
  fixes now sealed_ready
  assumes "wf_sides pending" and "distinct pending" and "inj_on o_uid (set pending)"
    and p: "p = plan_batch pending resting fit now sealed_ready"
    and full: "full = plan_round pending resting now sealed_ready"
  obtains C a b where "C \<subseteq> uids (rp_reveal full)" and "stuck_of (pass_plan pending resting now C) = []"
    and "distinct (a @ b)"
    and "\<forall>od\<in>set (a @ b). od \<in> set pending \<and> o_sealed od \<and> o_uid od \<in> uids (rp_reveal full) - C"
    and "rp_reveal p = rp_reveal (pass_plan pending resting now C)"
    and "rp_public p = rp_public (pass_plan pending resting now C)"
    and "rp_carry p = rp_carry full @ a" and "rp_expired p = rp_expired full @ b"
    and "rp_deferred p = rp_deferred full"
    and "rp_overflow p = filter (\<lambda>od. o_uid od \<notin> uids (rp_reveal p @ rp_public p @ rp_carry p
           @ rp_expired p @ rp_deferred p)) pending"
proof -
  have "exact_from pending resting now (uids (rp_reveal full)) (rp_carry full) (rp_expired full)
      (fit_loop fit pending resting now FIT_PASSES full (uids (rp_reveal full)) (rp_carry full) (rp_expired full))"
    by (rule fit_loop_exact [OF assms(1-3)]) (simp add: FIT_PASSES_def)
  then obtain C a b where *: "C \<subseteq> uids (rp_reveal full)"
    "fit_loop fit pending resting now FIT_PASSES full (uids (rp_reveal full)) (rp_carry full) (rp_expired full)
     = (pass_plan pending resting now C, rp_carry full @ a, rp_expired full @ b)"
    "stuck_of (pass_plan pending resting now C) = []" "distinct (a @ b)"
    "\<forall>od\<in>set (a @ b). od \<in> set pending \<and> o_sealed od \<and> o_uid od \<in> uids (rp_reveal full) - C"
    unfolding exact_from_def by blast
  show thesis
    by (rule that [OF *(1,3,4,5)])
      (simp_all add: p plan_batch_def Let_def *(2) Un_assoc flip: full)
qed

lemma pass_batch:
  assumes "stuck_of (pass_plan pending resting now C) = []"
  shows "mset (rp_reveal (pass_plan pending resting now C)) + mset (rp_public (pass_plan pending resting now C))
    = mset (fst (fit (pass_cands pending C)))"
proof -
  have "rp_deferred (pass_plan pending resting now C) = []"
    by (simp add: pass_plan_def plan_round_simps ready_pred_def)
  then show ?thesis
    using assms plan_round_partition [OF pass_plan_def [of pending resting now C]] by simp
qed

lemma plan_batch_batch:
  assumes "wf_sides pending" and "distinct pending" and "inj_on o_uid (set pending)"
    and "p = plan_batch pending resting fit now sealed_ready"
  shows "\<exists>cands. mset cands \<subseteq># mset pending \<and> public_of cands = public_of pending \<and>
    mset (rp_reveal p @ rp_public p) = mset (fst (fit cands))"
proof -
  obtain C where C: "stuck_of (pass_plan pending resting now C) = []"
    "rp_reveal p = rp_reveal (pass_plan pending resting now C)"
    "rp_public p = rp_public (pass_plan pending resting now C)"
    by (rule plan_batch_exact [OF assms refl]) (rule that; assumption)
  have "mset (pass_cands pending C) \<subseteq># mset pending" by (simp add: pass_cands_def)
  moreover have "public_of (pass_cands pending C) = public_of pending"
    by (auto simp: pass_cands_def intro!: filter_cong)
  moreover have "mset (rp_reveal p @ rp_public p) = mset (fst (fit (pass_cands pending C)))"
    using pass_batch [OF C(1)] C(2,3) by simp
  ultimately show ?thesis by blast
qed

lemma plan_batch_reveals_trade:
  assumes "wf_sides pending" and "distinct pending" and "inj_on o_uid (set pending)"
    and "p = plan_batch pending resting fit now sealed_ready" and "od \<in> set (rp_reveal p)"
  shows "od \<in> set pending \<and> o_sealed od \<and> ready_pred sealed_ready od \<and>
    (\<exists>x\<in>set (resting @ rp_public p @ rp_reveal p). matches od x)"
proof -
  let ?full = "plan_round pending resting now sealed_ready"
  obtain C where C: "C \<subseteq> uids (rp_reveal ?full)"
    "rp_reveal p = rp_reveal (pass_plan pending resting now C)"
    "rp_public p = rp_public (pass_plan pending resting now C)"
    by (rule plan_batch_exact [OF assms(1-4) refl]) (rule that; assumption)
  have mem: "od \<in> set pending \<and> o_sealed od \<and> o_uid od \<in> C"
    using assms(5) pass_members unfolding C(2) by blast
  then obtain y where y: "y \<in> set (rp_reveal ?full)" "o_uid od = o_uid y" using C(1) by blast
  then have "y \<in> set pending \<and> ready_pred sealed_ready y"
    by (simp add: plan_round_simps ready_of_def)
  moreover from this have "od = y" using inj_onD [OF assms(3) y(2)] mem by blast
  moreover have "\<exists>x\<in>set (resting @ rp_public p @ rp_reveal p). matches od x"
    using reveal_counterparty [OF wf_sides_batch [OF assms(1)]] assms(5)
    unfolding C(2,3) pass_plan_def plan_round_simps(2) by blast
  ultimately show ?thesis using mem by blast
qed

lemma plan_round_distinct:
  assumes "distinct pending" and "p = plan_round pending resting now r"
  shows "distinct (rp_reveal p @ rp_public p @ rp_carry p @ rp_expired p @ rp_deferred p)" (is "distinct ?L")
    and "set pending = set (rp_reveal p @ rp_public p @ rp_carry p @ rp_expired p @ rp_deferred p)"
proof -
  have *: "mset ?L = mset pending"
    using plan_round_partition [OF assms(2)] by simp
  show "distinct ?L" using mset_eq_imp_distinct_iff [OF *] assms(1) by blast
  show "set pending = set ?L" using mset_eq_setD [OF *] by (rule sym)
qed

lemma plan_batch_partition:
  assumes "wf_sides pending" and dist: "distinct pending" and inj: "inj_on o_uid (set pending)"
    and p: "p = plan_batch pending resting fit now sealed_ready"
  shows "mset pending = mset (rp_reveal p) + mset (rp_public p) + mset (rp_carry p)
    + mset (rp_expired p) + mset (rp_deferred p) + mset (rp_overflow p)"
proof -
  define full where full: "full = plan_round pending resting now sealed_ready"
  define L where L: "L = rp_reveal p @ rp_public p @ rp_carry p @ rp_expired p @ rp_deferred p"
  obtain C a b where *: "C \<subseteq> uids (rp_reveal full)" "distinct (a @ b)"
    "\<forall>od\<in>set (a @ b). od \<in> set pending \<and> o_sealed od \<and> o_uid od \<in> uids (rp_reveal full) - C"
    "rp_reveal p = rp_reveal (pass_plan pending resting now C)"
    "rp_public p = rp_public (pass_plan pending resting now C)"
    "rp_carry p = rp_carry full @ a" "rp_expired p = rp_expired full @ b"
    "rp_deferred p = rp_deferred full"
    "rp_overflow p = filter (\<lambda>od. o_uid od \<notin> uids (rp_reveal p @ rp_public p @ rp_carry p
       @ rp_expired p @ rp_deferred p)) pending"
    by (rule plan_batch_exact [OF assms full]) (rule that; assumption)
  note fd = plan_round_distinct [OF dist full]
  have by_uid: "od \<in> set (rp_reveal full)" if "od \<in> set pending" "o_uid od \<in> uids (rp_reveal full)" for od
  proof -
    from that(2) obtain y where y: "y \<in> set (rp_reveal full)" "o_uid od = o_uid y" by blast
    with fd(2) have "y \<in> set pending" by simp
    with y that(1) inj_onD [OF inj y(2)] show ?thesis by simp
  qed
  have rev: "od \<in> set (rp_reveal full) \<and> o_uid od \<in> C" if "od \<in> set (rp_reveal p)" for od
  proof -
    have "od \<in> set pending \<and> o_uid od \<in> C"
      using that pass_members [of od pending resting now C] unfolding *(4) by blast
    then show ?thesis using subsetD [OF *(1)] by_uid [of od] by simp
  qed
  have ab: "od \<in> set (rp_reveal full) \<and> o_uid od \<notin> C" if "od \<in> set a \<or> od \<in> set b" for od
  proof -
    have "od \<in> set pending \<and> o_uid od \<in> uids (rp_reveal full) - C" using that *(3) by simp
    then show ?thesis using by_uid [of od] by simp
  qed
  have pub: "od \<in> set (rp_public full)" if "od \<in> set (rp_public p)" for od
  proof -
    have "od \<in> set (fst (fit (pass_cands pending C)))" "\<not> o_sealed od"
      using that unfolding *(5) pass_plan_def plan_round_simps(2) by simp_all
    then show ?thesis
      using batch_cands [of od pending C] unfolding full plan_round_simps(2) by simp
  qed
  have "distinct (rp_reveal p)" "distinct (rp_public p)"
    using distinct_batch [OF dist, of C] unfolding *(4,5) pass_plan_def plan_round_simps ready_None by simp_all
  moreover have sets: "set (rp_reveal p) \<subseteq> set (rp_reveal full)" "set (a @ b) \<subseteq> set (rp_reveal full)"
      "set (rp_reveal p) \<inter> set (a @ b) = {}" "set (rp_public p) \<subseteq> set (rp_public full)"
    using rev ab pub unfolding set_append by blast+
  ultimately have "distinct L"
    unfolding L *(6-8) by (intro distinct_refine [OF fd(1) *(2)])
  moreover have "set L \<subseteq> set pending"
    unfolding fd(2) L *(6-8) set_append using sets(1,2,4) unfolding set_append by blast
  moreover have "rp_overflow p = filter (\<lambda>od. od \<notin> set L) pending"
  proof -
    have "o_uid od \<in> uids L \<longleftrightarrow> od \<in> set L" if "od \<in> set pending" for od
      using inj_on_image_mem_iff [OF inj that \<open>set L \<subseteq> set pending\<close>] .
    then show ?thesis unfolding *(9) L [symmetric] by (intro filter_cong refl) simp
  qed
  ultimately have "mset pending = mset L + mset (rp_overflow p)"
    using mset_select_rest [OF dist, of L] by (simp only:)
  then show ?thesis
    by (simp only: L mset_append add.assoc)
qed

end

section \<open>Properties of one round's plan\<close>

lemma plan_idle_drop:
  assumes "wf_sides (ready_of pending r)"
  shows "idle_drop (resting @ public_of pending) (ready_of pending r)
    (crosses_in (liquidity pending resting r))"
  unfolding idle_drop_def
proof (intro ballI impI)
  fix y x assume y: "y \<in> set (ready_of pending r)" "\<not> crosses_in (liquidity pending resting r) y"
    and x: "x \<in> set ((resting @ public_of pending) @ ready_of pending r)"
  have "o_side y = BUY \<or> o_side y = SELL" using assms y(1) by (simp add: wf_sides_def)
  then show "\<not> matches y x"
    using y(2) x crosses_iff [of y "liquidity pending resting r"] by (auto simp: liquidity_def)
qed

text \<open>Three sealed orders and a resting ask, for the witnesses: the first buy crosses the ask, the
  second is below it, the third has no commit on chain yet.\<close>

definition sealed_order :: "int \<Rightarrow> int \<Rightarrow> int \<Rightarrow> int \<Rightarrow> order" where
  "sealed_order i s p q = (mk_order i s p q)\<lparr>o_sealed := True\<rparr>"

definition sample_queue :: "order list" where
  "sample_queue = [sealed_order 1 BUY 101 5, sealed_order 2 BUY 90 5, mk_order 3 SELL 103 2, sealed_order 4 SELL 95 5]"

definition sample_ready :: "(order \<Rightarrow> bool) option" where
  "sample_ready = Some (\<lambda>od. o_oid od \<noteq> 4)"

definition sample_ask :: "order list" where
  "sample_ask = [mk_order 9 SELL 100 3]"

text \<open>C8: the builder's filter is neutral. Clearing the set it submits (the resting book, the
  public orders and the sealed orders that cross) gives exactly the clearing (price, volume
  and every fill) of the set with all commit-ready sealed orders in it.\<close>

theorem plan_round_neutral:
  assumes "wf_batch (resting @ public_of pending @ ready_of pending r)"
  shows "clear (resting @ rp_public (plan_round pending resting now r) @ rp_reveal (plan_round pending resting now r))
    = clear (resting @ public_of pending @ ready_of pending r)"
proof -
  have "wf_sides (ready_of pending r)" using assms by (auto simp: wf_batch_def wf_sides_def)
  then show ?thesis
    using clear_drop_idle [OF _ plan_idle_drop, of resting pending r] assms
    by (simp add: plan_round_simps(1,2))
qed

theorem plan_round_neutral_witness:
  "clear (sample_ask @ rp_public (plan_round sample_queue sample_ask 0 sample_ready)
      @ rp_reveal (plan_round sample_queue sample_ask 0 sample_ready))
   = clear (sample_ask @ public_of sample_queue @ ready_of sample_queue sample_ready)
   \<and> map o_oid (rp_reveal (plan_round sample_queue sample_ask 0 sample_ready)) = [1]
   \<and> map o_oid (ready_of sample_queue sample_ready) = [1, 2]"
proof -
  have "wf_batch (sample_ask @ public_of sample_queue @ ready_of sample_queue sample_ready)" by code_simp
  moreover have "map o_oid (rp_reveal (plan_round sample_queue sample_ask 0 sample_ready)) = [1]"
    and "map o_oid (ready_of sample_queue sample_ready) = [1, 2]" by code_simp+
  ultimately show ?thesis using plan_round_neutral by blast
qed

text \<open>C16: a round's plan places every queued order exactly once; an order it reveals is sealed,
  commit-ready and has a counterparty in the set that is submitted; an order it defers is
  sealed with no commit on chain and in time; one it carries is sealed, ready, in time and
  crosses nothing that is submitted.\<close>

theorem plan_round_sound:
  assumes "wf_sides pending" and p: "p = plan_round pending resting now r"
  shows "mset pending = mset (rp_reveal p) + mset (rp_public p) + mset (rp_carry p)
      + mset (rp_expired p) + mset (rp_deferred p) \<and>
    (\<forall>od\<in>set (rp_reveal p). o_sealed od \<and> ready_pred r od \<and>
       (\<exists>x\<in>set (resting @ rp_public p @ rp_reveal p). matches od x)) \<and>
    (\<forall>od\<in>set (rp_carry p). o_sealed od \<and> ready_pred r od \<and> \<not> elapsed now od \<and>
       (\<forall>x\<in>set (resting @ rp_public p @ rp_reveal p). \<not> matches od x)) \<and>
    (\<forall>od\<in>set (rp_deferred p). o_sealed od \<and> \<not> ready_pred r od \<and> \<not> elapsed now od)"
proof (intro conjI ballI)
  show "mset pending = mset (rp_reveal p) + mset (rp_public p) + mset (rp_carry p)
      + mset (rp_expired p) + mset (rp_deferred p)"
    by (rule plan_round_partition [OF p])
next
  fix od assume od: "od \<in> set (rp_reveal p)"
  then show "o_sealed od" "ready_pred r od" by (simp_all add: p plan_round_simps ready_of_def)
  show "\<exists>x\<in>set (resting @ rp_public p @ rp_reveal p). matches od x"
    using reveal_counterparty [OF assms(1)] od by (simp add: p plan_round_simps(2))
next
  fix od assume od: "od \<in> set (rp_carry p)"
  then show "o_sealed od" "ready_pred r od" "\<not> elapsed now od"
    by (simp_all add: p plan_round_simps ready_of_def)
  fix x assume "x \<in> set (resting @ rp_public p @ rp_reveal p)"
  then have "x \<in> set (liquidity pending resting r)"
    by (auto simp: p plan_round_simps liquidity_def)
  moreover have "od \<in> set (ready_of pending r)" "\<not> crosses_in (liquidity pending resting r) od"
    using od by (simp_all add: p plan_round_simps)
  ultimately show "\<not> matches od x"
    using crosses_iff [OF wf_sides_liquidity [OF assms(1)]] by blast
next
  fix od assume "od \<in> set (rp_deferred p)"
  then show "o_sealed od" "\<not> ready_pred r od" "\<not> elapsed now od"
    by (simp_all add: p plan_round_simps)
qed

theorem plan_round_sound_witness:
  "(let p = plan_round sample_queue sample_ask 0 sample_ready in
     mset sample_queue = mset (rp_reveal p) + mset (rp_public p) + mset (rp_carry p)
       + mset (rp_expired p) + mset (rp_deferred p) \<and>
     map o_oid (rp_carry p) = [2] \<and> map o_oid (rp_deferred p) = [4])"
proof -
  have "wf_sides sample_queue" by code_simp
  moreover have "map o_oid (rp_carry (plan_round sample_queue sample_ask 0 sample_ready)) = [2]"
    "map o_oid (rp_deferred (plan_round sample_queue sample_ask 0 sample_ready)) = [4]" by code_simp+
  ultimately show ?thesis
    using plan_round_sound [OF _ refl, of sample_queue sample_ask 0 sample_ready] by (simp only: Let_def)
qed


end
