(* ===== verification/Seq_Cap.thy ===== *)
theory Seq_Cap
  imports Round_Plan
begin

text \<open>
  What \<^verbatim>\<open>src/offchain/server.py\<close> does to a batch before it is submitted: the capacity cap
  (\<open>cap_batch\<close>), the per-account sequence discipline (\<open>seq_sanitize\<close>) and the repricing of market
  orders (\<open>market_price\<close>, \<open>price_market_orders\<close>), with the service's own acceptance check
  \<open>check_bindings\<close> (\<^verbatim>\<open>crates/match-engine/src/floors.rs\<close>) as the specification of the last two.
  \<open>cap_batch\<close> implements the \<open>fit_policy\<close> interface of the planner. The on-chain floors and the last
  price are read through the chain: here they are arguments (a read that raises is \<open>Inl\<close>).
\<close>

section \<open>The cap\<close>

text \<open>The queue positions of an account's public orders, and the accounts in the insertion order
  of the dict \<open>slots\<close>.\<close>

definition slots_of :: "'a order_scheme list \<Rightarrow> int \<Rightarrow> nat list" where
  "slots_of orders a =
     filter (\<lambda>i. \<not> o_sealed (orders ! i) \<and> o_account (orders ! i) = a) [0..<length orders]"

definition slot_accounts :: "'a order_scheme list \<Rightarrow> int list" where
  "slot_accounts orders = rev (remdups (rev (map o_account (filter (\<lambda>od. \<not> o_sealed od) orders))))"

fun put_all :: "(nat \<times> 'b) list \<Rightarrow> 'b list \<Rightarrow> 'b list" where
  "put_all [] out = out"
| "put_all ((i, x) # ps) out = put_all ps (out[i := x])"

definition deal :: "'a order_scheme list \<Rightarrow> int \<Rightarrow> 'a order_scheme list \<Rightarrow> 'a order_scheme list" where
  "deal orders a out =
     put_all (zip (slots_of orders a) (sort_key o_seq (map ((!) orders) (slots_of orders a)))) out"

definition redeal :: "'a order_scheme list \<Rightarrow> 'a order_scheme list" where
  "redeal orders = fold (deal orders) (slot_accounts orders) orders"

definition gas_of :: "('a order_scheme \<Rightarrow> nat) option \<Rightarrow> 'a order_scheme \<Rightarrow> nat" where
  "gas_of gas od = (case gas of None \<Rightarrow> 0 | Some g \<Rightarrow> g od)"

definition sealed_full :: "nat option \<Rightarrow> nat \<Rightarrow> bool" where
  "sealed_full sealed_cap n = (case sealed_cap of None \<Rightarrow> False | Some c \<Rightarrow> c \<le> n)"

text \<open>The batch loop; \<open>n\<close> is \<^verbatim>\<open>len(batch)\<close>.\<close>

fun fill_batch :: "nat \<Rightarrow> ('a order_scheme \<Rightarrow> nat) option \<Rightarrow> nat \<Rightarrow> nat option
    \<Rightarrow> nat \<Rightarrow> nat \<Rightarrow> nat \<Rightarrow> 'a order_scheme list \<Rightarrow> 'a order_scheme list" where
  "fill_batch cap gas budget sealed_cap n used sealed [] = []"
| "fill_batch cap gas budget sealed_cap n used sealed (od # out) =
     (let g = gas_of gas od in
      if budget < g then fill_batch cap gas budget sealed_cap n used sealed out
      else if cap \<le> n \<or> budget < used + g \<or> o_sealed od \<and> sealed_full sealed_cap sealed then []
      else od # fill_batch cap gas budget sealed_cap (n + 1) (used + g)
                  (sealed + (if o_sealed od then 1 else 0)) out)"

definition cap_batch :: "'a order_scheme list \<Rightarrow> nat \<Rightarrow> ('a order_scheme \<Rightarrow> nat) option \<Rightarrow> nat
    \<Rightarrow> nat option \<Rightarrow> 'a order_scheme list \<times> 'a order_scheme list" where
  "cap_batch orders cap gas budget sealed_cap =
     (let out = redeal orders;
          batch = fill_batch cap gas budget sealed_cap 0 0 0 out
      in (batch, filter (\<lambda>od. o_uid od \<notin> uids batch) out))"

section \<open>Sequence discipline and market prices\<close>

datatype dead_reason =
    Superseded int int
  | DuplicateSeq int
  | NoLastPrice

type_synonym 'a dead_order = "'a order_scheme \<times> dead_reason"

text \<open>The loop of \<open>_seq_sanitize\<close> over the sorted orders. \<open>floor_of\<close> is \<open>_seq_floor\<close>, read once per
  account.\<close>

fun sanitize_loop :: "(int \<Rightarrow> int res) \<Rightarrow> (int \<rightharpoonup> int) \<Rightarrow> (int \<rightharpoonup> int) \<Rightarrow> 'a order_scheme list
    \<Rightarrow> 'a dead_order list \<Rightarrow> 'a order_scheme list
    \<Rightarrow> ('a order_scheme list \<times> 'a dead_order list \<times> (int \<rightharpoonup> int)) res" where
  "sanitize_loop floor_of floors run kept dead [] = Inr (kept, dead, floors)"
| "sanitize_loop floor_of floors run kept dead (od # os) =
     (let a = o_account od; s = o_seq od in
      bind_res (case floors a of Some _ \<Rightarrow> Inr (floors, run)
                | None \<Rightarrow> bind_res (floor_of a) (\<lambda>f. Inr (floors(a \<mapsto> f), run(a \<mapsto> f))))
        (\<lambda>(floors, run).
           if s \<le> the (floors a)
           then sanitize_loop floor_of floors run kept (dead @ [(od, Superseded (the (floors a)) s)]) os
           else if s \<le> the (run a)
           then sanitize_loop floor_of floors run kept (dead @ [(od, DuplicateSeq s)]) os
           else sanitize_loop floor_of floors (run(a \<mapsto> s)) (kept @ [od]) dead os))"

definition seq_sanitize :: "(int \<Rightarrow> int res) \<Rightarrow> 'a order_scheme list
    \<Rightarrow> ('a order_scheme list \<times> 'a dead_order list \<times> (int \<rightharpoonup> int)) res" where
  "seq_sanitize floor_of orders =
     sanitize_loop floor_of Map.empty Map.empty [] [] (sort_key (\<lambda>od. (o_account od, o_seq od)) orders)"

definition MARKET_BAND_PCT :: int where "MARKET_BAND_PCT = 10"

definition market_price :: "int \<Rightarrow> int \<Rightarrow> int" where
  "market_price side lp =
     (if side = BUY then lp * (100 + MARKET_BAND_PCT) div 100
      else max 1 (- (- lp * (100 - MARKET_BAND_PCT) div 100)))"

text \<open>\<open>lp\<close> is the read \<^verbatim>\<open>mstate(b"lp", m)\<close>, made only when the round has a market order.\<close>

definition price_market_orders :: "int res \<Rightarrow> 'a order_scheme list
    \<Rightarrow> ('a order_scheme list \<times> 'a dead_order list) res" where
  "price_market_orders lp_read public =
     (let market = filter o_market public in
      if market = [] then Inr (public, [])
      else bind_res lp_read (\<lambda>lp.
        if lp \<le> 0 then Inr (filter (\<lambda>od. \<not> o_market od) public, map (\<lambda>od. (od, NoLastPrice)) market)
        else Inr (map (\<lambda>od. if o_market od then od\<lparr>o_price := market_price (o_side od) lp\<rparr> else od) public, [])))"

text \<open>The service's check of a round's bindings (\<^verbatim>\<open>floors.rs\<close>): \<open>store\<close> reads the on-chain order floors,
  \<open>reg\<close> the registered keys. The running floors are the Rust vector of pairs.\<close>

record binding =
  b_account :: int
  b_pubkey :: bytes
  b_seq :: int
  b_market :: bool
  b_price :: int

text \<open>The index \<open>i\<close> of the account's entry, pushed with the stored floor when absent; and
  \<^verbatim>\<open>floors[i].1 = b.seq\<close>.\<close>

definition open_floor :: "(int \<Rightarrow> int) \<Rightarrow> (int \<times> int) list \<Rightarrow> int \<Rightarrow> (int \<times> int) list" where
  "open_floor store floors a =
     (if a \<in> fst ` set floors then floors else floors @ [(a, store a)])"

definition raise_floor :: "int \<Rightarrow> int \<Rightarrow> (int \<times> int) list \<Rightarrow> (int \<times> int) list" where
  "raise_floor a s floors = map (\<lambda>(x, f). if x = a then (x, s) else (x, f)) floors"

definition out_of_band :: "int \<Rightarrow> int \<Rightarrow> int \<Rightarrow> bool" where
  "out_of_band p l band \<longleftrightarrow> p * 100 < l * (100 - band) \<or> l * (100 + band) < p * 100"

fun check_bindings_from :: "(int \<Rightarrow> int) \<Rightarrow> (int \<Rightarrow> bytes option) \<Rightarrow> int \<Rightarrow> int \<Rightarrow> (int \<times> int) list
    \<Rightarrow> binding list \<Rightarrow> (int \<times> int) list option" where
  "check_bindings_from store reg last_price band floors [] = Some floors"
| "check_bindings_from store reg last_price band floors (b # bs) =
     (if reg (b_account b) \<noteq> Some (b_pubkey b) then None
      else let floors = open_floor store floors (b_account b) in
        if b_seq b \<le> the (map_of floors (b_account b)) then None
        else if b_market b \<and> (last_price = 0 \<or> out_of_band (b_price b) last_price band) then None
        else check_bindings_from store reg last_price band
               (raise_floor (b_account b) (b_seq b) floors) bs)"

definition check_bindings :: "binding list \<Rightarrow> (int \<Rightarrow> int) \<Rightarrow> (int \<Rightarrow> bytes option) \<Rightarrow> int \<Rightarrow> int
    \<Rightarrow> (int \<times> int) list option" where
  "check_bindings bs store reg last_price band = check_bindings_from store reg last_price band [] bs"

definition binding_of :: "'a order_scheme \<Rightarrow> binding" where
  "binding_of od = \<lparr>b_account = o_account od, b_pubkey = o_pubkey od, b_seq = o_seq od,
     b_market = o_market od, b_price = o_price od\<rparr>"

section \<open>Re-dealing the queue positions\<close>

text \<open>What re-dealing keeps of an order: a sealed one itself, a public one only its account.\<close>

definition skel :: "'a order_scheme \<Rightarrow> 'a order_scheme + int" where
  "skel od = (if o_sealed od then Inl od else Inr (o_account od))"

definition pub_of :: "int \<Rightarrow> 'a order_scheme \<Rightarrow> bool" where
  "pub_of a od \<longleftrightarrow> \<not> o_sealed od \<and> o_account od = a"

lemma skel_Inr: "skel od = Inr a \<longleftrightarrow> pub_of a od"
  by (auto simp: skel_def pub_of_def)

lemma pub_of_skel: "skel x = skel y \<Longrightarrow> pub_of a x \<longleftrightarrow> pub_of a y"
  by (metis skel_Inr)

lemma slots_of_pub: "slots_of orders a = filter (\<lambda>i. pub_of a (orders ! i)) [0..<length orders]"
  by (simp add: slots_of_def pub_of_def)

lemma length_put_all [simp]: "length (put_all ps out) = length out"
  by (induction ps out rule: put_all.induct) simp_all

lemma put_all_other: "i \<notin> fst ` set ps \<Longrightarrow> put_all ps out ! i = out ! i"
  by (induction ps out rule: put_all.induct) auto

lemma put_all_map:
  assumes "distinct is" and "length xs = length is" and "\<forall>i\<in>set is. i < length out"
  shows "map ((!) (put_all (zip is xs) out)) is = xs"
  using assms
proof (induction "is" arbitrary: xs out)
  case (Cons i "is")
  then obtain x xs' where xs: "xs = x # xs'" by (cases xs) auto
  have "i \<notin> fst ` set (zip is xs')" using Cons.prems(1) by (auto dest: set_zip_leftD)
  with Cons xs show ?case by (simp add: put_all_other)
qed simp

lemma filter_nth_map: "filter P xs = map ((!) xs) (filter (\<lambda>i. P (xs ! i)) [0..<length xs])"
proof -
  have "filter P (map ((!) xs) [0..<length xs]) = map ((!) xs) (filter (\<lambda>i. P (xs ! i)) [0..<length xs])"
    by (simp add: filter_map o_def)
  then show ?thesis by (simp add: map_nth)
qed

text \<open>The state of the re-deal after the accounts \<open>A\<close>.\<close>

definition dealt :: "'a order_scheme list \<Rightarrow> int set \<Rightarrow> 'a order_scheme list \<Rightarrow> bool" where
  "dealt orders A out \<longleftrightarrow> map skel out = map skel orders \<and>
     (\<forall>a. map ((!) out) (slots_of orders a) =
        (if a \<in> A then sort_key o_seq (map ((!) orders) (slots_of orders a))
         else map ((!) orders) (slots_of orders a)))"

lemma slots_of_props:
  "distinct (slots_of orders a)" "\<forall>i\<in>set (slots_of orders a). i < length orders \<and> pub_of a (orders ! i)"
  by (auto simp: slots_of_pub)

lemma deal_dealt:
  assumes "dealt orders A out"
  shows "dealt orders (insert a A) (deal orders a out)"
  unfolding dealt_def
proof (intro conjI allI)
  let ?is = "slots_of orders a" and ?s = "sort_key o_seq (map ((!) orders) (slots_of orders a))"
  have len: "length out = length orders"
    using assms unfolding dealt_def by (metis length_map)
  have at: "map ((!) (deal orders a out)) ?is = ?s"
    unfolding deal_def by (rule put_all_map) (use slots_of_props [of orders a] in \<open>auto simp: len\<close>)
  have other: "deal orders a out ! i = out ! i" if "i \<notin> set ?is" for i
    unfolding deal_def using that by (intro put_all_other) (auto dest: set_zip_leftD)
  have pub: "pub_of a (deal orders a out ! i)" if "i \<in> set ?is" for i
  proof -
    have "deal orders a out ! i \<in> set ?s"
      unfolding at [symmetric] using that by simp
    then show ?thesis using slots_of_props(2) [of orders a] by auto
  qed
  show "map skel (deal orders a out) = map skel orders"
  proof (rule nth_equalityI)
    fix i assume "i < length (map skel (deal orders a out))"
    then have i: "i < length orders" by (simp add: deal_def len)
    show "map skel (deal orders a out) ! i = map skel orders ! i"
    proof (cases "i \<in> set ?is")
      case True
      then have "skel (deal orders a out ! i) = Inr a" "skel (orders ! i) = Inr a"
        using pub slots_of_props(2) [of orders a] by (auto simp: skel_Inr)
      then show ?thesis using i by (simp add: deal_def len)
    next
      case False
      have "map skel out ! i = map skel orders ! i" using assms by (simp add: dealt_def)
      then show ?thesis using i other [OF False] by (simp add: deal_def len)
    qed
  qed (simp add: deal_def len)
  fix b
  show "map ((!) (deal orders a out)) (slots_of orders b) =
      (if b \<in> insert a A then sort_key o_seq (map ((!) orders) (slots_of orders b))
       else map ((!) orders) (slots_of orders b))"
  proof (cases "b = a")
    case True
    then show ?thesis using at by simp
  next
    case False
    then have "i \<notin> set ?is" if "i \<in> set (slots_of orders b)" for i
      using that slots_of_props(2) [of orders a] slots_of_props(2) [of orders b] by (auto simp: pub_of_def)
    then have E: "map ((!) (deal orders a out)) (slots_of orders b) = map ((!) out) (slots_of orders b)"
      using other by simp
    have "map ((!) out) (slots_of orders b) =
        (if b \<in> A then sort_key o_seq (map ((!) orders) (slots_of orders b))
         else map ((!) orders) (slots_of orders b))"
      using assms unfolding dealt_def by blast
    then show ?thesis unfolding E using False by (simp only: insert_iff simp_thms)
  qed
qed

lemma fold_deal_dealt: "dealt orders A out \<Longrightarrow> dealt orders (A \<union> set as) (fold (deal orders) as out)"
proof (induction as arbitrary: A out)
  case (Cons a as)
  have "dealt orders (insert a A \<union> set as) (fold (deal orders) as (deal orders a out))"
    by (rule Cons.IH [OF deal_dealt [OF Cons.prems]])
  then show ?case by simp
qed simp

lemma redeal_dealt: "dealt orders (set (slot_accounts orders)) (redeal orders)"
proof -
  have "dealt orders ({} \<union> set (slot_accounts orders)) (redeal orders)"
    unfolding redeal_def by (rule fold_deal_dealt) (simp add: dealt_def)
  then show ?thesis by simp
qed

lemma redeal_skel: "map skel (redeal orders) = map skel orders"
  using redeal_dealt [of orders] unfolding dealt_def by blast

lemma redeal_pub: "filter (pub_of a) (redeal orders) = sort_key o_seq (filter (pub_of a) orders)"
proof -
  have len: "length (redeal orders) = length orders"
    using redeal_skel by (metis length_map)
  have "pub_of a (redeal orders ! i) \<longleftrightarrow> pub_of a (orders ! i)" if "i < length orders" for i
    using that redeal_skel [of orders] len by (intro pub_of_skel) (metis nth_map)
  then have slots: "filter (\<lambda>i. pub_of a (redeal orders ! i)) [0..<length (redeal orders)] = slots_of orders a"
    unfolding slots_of_pub len by (intro filter_cong) auto
  have "a \<in> set (slot_accounts orders) \<or> slots_of orders a = []"
    by (auto simp: slot_accounts_def slots_of_def filter_empty_conv)
  moreover have "map ((!) (redeal orders)) (slots_of orders a) =
      (if a \<in> set (slot_accounts orders) then sort_key o_seq (map ((!) orders) (slots_of orders a))
       else map ((!) orders) (slots_of orders a))"
    using redeal_dealt [of orders] unfolding dealt_def by blast
  ultimately have "map ((!) (redeal orders)) (slots_of orders a)
      = sort_key o_seq (map ((!) orders) (slots_of orders a))"
    by (auto split: if_splits)
  then show ?thesis
    using filter_nth_map [of "pub_of a" "redeal orders", unfolded slots]
      filter_nth_map [of "pub_of a" orders, folded slots_of_pub] by (simp only:)
qed

lemma skel_unique:
  "map skel xs = map skel ys \<Longrightarrow> (\<And>a. filter (pub_of a) xs = filter (pub_of a) ys) \<Longrightarrow> xs = ys"
proof (induction xs arbitrary: ys)
  case (Cons x xs)
  then obtain y ys' where ys: "ys = y # ys'" "skel x = skel y" "map skel xs = map skel ys'"
    by (cases ys) auto
  have "x = y"
  proof (cases "o_sealed x")
    case True
    with ys(2) show ?thesis by (auto simp: skel_def split: if_splits)
  next
    case False
    then have "pub_of (o_account x) x" "pub_of (o_account x) y"
      using pub_of_skel [OF ys(2), of "o_account x"] by (simp_all add: pub_of_def)
    with Cons.prems(2) [of "o_account x"] ys(1) show ?thesis by simp
  qed
  moreover have "filter (pub_of a) xs = filter (pub_of a) ys'" for a
    using Cons.prems(2) [of a] ys(1) calculation by (simp split: if_splits)
  ultimately show ?case using Cons.IH [OF ys(3)] ys(1) by simp
qed simp

lemma count_sealed: "o_sealed z \<Longrightarrow> count (mset xs) z = count (mset (map skel xs)) (Inl z)"
  by (induction xs) (auto simp: skel_def)

lemma count_public: "pub_of a z \<Longrightarrow> count (mset xs) z = count (mset (filter (pub_of a) xs)) z"
  by simp

lemma mset_redeal [simp]: "mset (redeal orders) = mset orders"
proof (rule multiset_eqI)
  fix z
  show "count (mset (redeal orders)) z = count (mset orders) z"
  proof (cases "o_sealed z")
    case True
    then show ?thesis by (simp only: count_sealed redeal_skel)
  next
    case False
    then have "pub_of (o_account z) z" by (simp add: pub_of_def)
    from count_public [OF this, of "redeal orders"] count_public [OF this, of orders]
    show ?thesis by (simp only: redeal_pub mset_sort)
  qed
qed

lemma set_redeal [simp]: "set (redeal orders) = set orders"
  by (rule mset_eq_setD) simp

text \<open>Dropping sealed orders and re-dealing commute: sealed orders hold their own places.\<close>

lemma map_skel_filter:
  assumes "\<And>x. x \<in> set xs \<Longrightarrow> \<not> P x \<Longrightarrow> o_sealed x"
  shows "map skel (filter P xs) = filter (\<lambda>k. case k of Inl x \<Rightarrow> P x | Inr _ \<Rightarrow> True) (map skel xs)"
  using assms by (induction xs) (auto simp: skel_def)

lemma redeal_filter:
  assumes "\<And>x. x \<in> set cs \<Longrightarrow> \<not> P x \<Longrightarrow> o_sealed x"
  shows "redeal (filter P cs) = filter P (redeal cs)"
proof (rule skel_unique)
  show "map skel (redeal (filter P cs)) = map skel (filter P (redeal cs))"
    using assms map_skel_filter [of cs P] map_skel_filter [of "redeal cs" P] by (simp add: redeal_skel)
  have keep: "P x" if "x \<in> set cs" "pub_of a x" for a x
    using assms that by (auto simp: pub_of_def)
  have drop: "filter (pub_of a) (filter P xs) = filter (pub_of a) xs" if "set xs = set cs" for a xs
    unfolding filter_filter using keep that by (intro filter_cong) auto
  show "filter (pub_of a) (redeal (filter P cs)) = filter (pub_of a) (filter P (redeal cs))" for a
    by (simp only: redeal_pub drop set_redeal)
qed

section \<open>The batch loop\<close>

lemma fill_batch_prefix:
  "\<exists>n. fill_batch cap gas budget sc k used sl out = filter (\<lambda>od. gas_of gas od \<le> budget) (take n out)"
proof (induction out arbitrary: k used sl)
  case (Cons od out)
  show ?case
  proof (cases "budget < gas_of gas od")
    case True
    obtain n where "fill_batch cap gas budget sc k used sl out = filter (\<lambda>od. gas_of gas od \<le> budget) (take n out)"
      using Cons.IH by blast
    with True show ?thesis by (intro exI [of _ "Suc n"]) simp
  next
    case False
    let ?u = "used + gas_of gas od" and ?sl = "sl + (if o_sealed od then 1 else 0)"
    show ?thesis
    proof (cases "cap \<le> k \<or> budget < ?u \<or> o_sealed od \<and> sealed_full sc sl")
      case True
      with False show ?thesis by (intro exI [of _ 0]) simp
    next
      case no: False
      obtain n where "fill_batch cap gas budget sc (k + 1) ?u ?sl out
          = filter (\<lambda>od. gas_of gas od \<le> budget) (take n out)"
        using Cons.IH by blast
      with no False show ?thesis by (intro exI [of _ "Suc n"]) (simp add: Let_def)
    qed
  qed
qed simp

lemma fill_batch_length:
  "k \<le> cap \<Longrightarrow> length (fill_batch cap gas budget sc k used sl out) + k \<le> cap"
proof (induction out arbitrary: k used sl)
  case (Cons od out)
  from Cons.IH [of "k + 1" "used + gas_of gas od" "sl + (if o_sealed od then 1 else 0)"]
    Cons.IH [OF Cons.prems, of used sl] Cons.prems show ?case by (simp add: Let_def)
qed simp

lemma fill_batch_gas:
  "used \<le> budget \<Longrightarrow> sum_list (map (gas_of gas) (fill_batch cap gas budget sc k used sl out)) + used \<le> budget"
proof (induction out arbitrary: k used sl)
  case (Cons od out)
  from Cons.IH [of "used + gas_of gas od" "k + 1" "sl + (if o_sealed od then 1 else 0)"]
    Cons.IH [OF Cons.prems, of k sl] Cons.prems show ?case
    by (cases "o_sealed od") (auto simp: Let_def)
qed simp

lemma fill_batch_sealed:
  "sl \<le> c \<Longrightarrow> length (filter o_sealed (fill_batch cap gas budget (Some c) k used sl out)) + sl \<le> c"
proof (induction out arbitrary: k used sl)
  case (Cons od out)
  from Cons.IH [of "sl + (if o_sealed od then 1 else 0)" "k + 1" "used + gas_of gas od"]
    Cons.IH [OF Cons.prems, of k used] Cons.prems show ?case
    by (cases "o_sealed od") (auto simp: Let_def sealed_full_def)
qed simp

lemma fill_batch_keep:
  assumes "k' \<le> k" and "used' \<le> used" and "sl' \<le> sl"
  shows "set (filter P (fill_batch cap gas budget sc k used sl out))
    \<subseteq> set (fill_batch cap gas budget sc k' used' sl' (filter P out))"
  using assms
proof (induction out arbitrary: k used sl k' used' sl')
  case (Cons od out)
  let ?g = "gas_of gas od" and ?x = "if o_sealed od then 1 else (0::nat)"
  consider "budget < ?g" | "\<not> budget < ?g" "cap \<le> k \<or> budget < used + ?g \<or> o_sealed od \<and> sealed_full sc sl"
    | "\<not> budget < ?g" "\<not> (cap \<le> k \<or> budget < used + ?g \<or> o_sealed od \<and> sealed_full sc sl)" by blast
  then show ?case
  proof cases
    case 1
    then show ?thesis using Cons.IH [OF Cons.prems] by auto
  next
    case 2
    then show ?thesis by simp
  next
    case 3
    then have no': "\<not> (cap \<le> k' \<or> budget < used' + ?g \<or> o_sealed od \<and> sealed_full sc sl')"
      using Cons.prems by (auto simp: sealed_full_def split: option.splits)
    show ?thesis
    proof (cases "P od")
      case True
      have "set (filter P (fill_batch cap gas budget sc (k + 1) (used + ?g) (sl + ?x) out))
          \<subseteq> set (fill_batch cap gas budget sc (k' + 1) (used' + ?g) (sl' + ?x) (filter P out))"
        by (rule Cons.IH) (use Cons.prems in simp_all)
      with True 3 no' show ?thesis by (auto simp: Let_def)
    next
      case False
      have "set (filter P (fill_batch cap gas budget sc (k + 1) (used + ?g) (sl + ?x) out))
          \<subseteq> set (fill_batch cap gas budget sc k' used' sl' (filter P out))"
        by (rule Cons.IH) (use Cons.prems in simp_all)
      with False 3 show ?thesis by (auto simp: Let_def)
    qed
  qed
qed simp

lemma cap_batch_sub: "mset (fst (cap_batch orders cap gas budget sc)) \<subseteq># mset orders"
proof -
  obtain n where "fst (cap_batch orders cap gas budget sc)
      = filter (\<lambda>od. gas_of gas od \<le> budget) (take n (redeal orders))"
    using fill_batch_prefix [of cap gas budget sc 0 0 0 "redeal orders"]
    by (auto simp: cap_batch_def Let_def)
  then have "mset (fst (cap_batch orders cap gas budget sc)) \<subseteq># mset (take n (redeal orders))" by simp
  also have "\<dots> \<subseteq># mset (redeal orders)"
    by (metis append_take_drop_id mset_append mset_subset_eq_add_left)
  finally show ?thesis by simp
qed

interpretation cap: fit_policy "\<lambda>cs. cap_batch cs cap gas budget sealed_cap"
  for cap gas budget sealed_cap
proof
  fix cs :: "'a order_scheme list" and P
  show "mset (fst (cap_batch cs cap gas budget sealed_cap)) \<subseteq># mset cs" by (rule cap_batch_sub)
  assume "\<And>x. x \<in> set cs \<Longrightarrow> \<not> P x \<Longrightarrow> o_sealed x"
  then show "set (filter P (fst (cap_batch cs cap gas budget sealed_cap)))
      \<subseteq> set (fst (cap_batch (filter P cs) cap gas budget sealed_cap))"
    using fill_batch_keep [of 0 0 0 0 0 0 P] by (simp add: cap_batch_def Let_def redeal_filter)
qed

section \<open>What the sanitizer keeps and drops\<close>

text \<open>The running floor of an account: what the loop has, or the on-chain floor.\<close>

definition running :: "(int \<Rightarrow> int) \<Rightarrow> (int \<rightharpoonup> int) \<Rightarrow> int \<Rightarrow> int" where
  "running fl run a = (case run a of None \<Rightarrow> fl a | Some r \<Rightarrow> r)"

text \<open>Each order strictly beats the running floor and raises it.\<close>

fun rising :: "(int \<Rightarrow> int) \<Rightarrow> 'a order_scheme list \<Rightarrow> bool" where
  "rising cur [] \<longleftrightarrow> True"
| "rising cur (od # os) \<longleftrightarrow> cur (o_account od) < o_seq od \<and> rising (cur(o_account od := o_seq od)) os"

definition dead_ok :: "(int \<Rightarrow> int) \<Rightarrow> 'a order_scheme list \<Rightarrow> 'a dead_order \<Rightarrow> bool" where
  "dead_ok fl kept dr \<longleftrightarrow> (case dr of (od, why) \<Rightarrow>
     why = Superseded (fl (o_account od)) (o_seq od) \<and> o_seq od \<le> fl (o_account od) \<or>
     why = DuplicateSeq (o_seq od) \<and> (\<exists>x\<in>set kept. o_account x = o_account od \<and> o_seq x = o_seq od))"

lemma dead_ok_append: "dead_ok fl kept dr \<Longrightarrow> dead_ok fl (kept @ k) dr"
  by (auto simp: dead_ok_def split: prod.splits)

text \<open>The loop state: floors hold the on-chain values, a running floor above its on-chain value is
  a kept order's seq, and the orders still to come are not below it.\<close>

definition seq_inv :: "(int \<Rightarrow> int) \<Rightarrow> (int \<rightharpoonup> int) \<Rightarrow> (int \<rightharpoonup> int) \<Rightarrow> 'a order_scheme list
    \<Rightarrow> 'a order_scheme list \<Rightarrow> bool" where
  "seq_inv fl floors run kept os \<longleftrightarrow> dom run = dom floors \<and> (\<forall>a f. floors a = Some f \<longrightarrow> f = fl a) \<and>
     (\<forall>a r. run a = Some r \<longrightarrow> fl a \<le> r \<and> (fl a < r \<longrightarrow>
        (\<exists>x\<in>set kept. o_account x = a \<and> o_seq x = r) \<and> (\<forall>od\<in>set os. o_account od = a \<longrightarrow> r \<le> o_seq od)))"

definition read_floor :: "(int \<Rightarrow> int) \<Rightarrow> (int \<rightharpoonup> int) \<Rightarrow> int \<Rightarrow> int \<rightharpoonup> int" where
  "read_floor fl m a = (case m a of None \<Rightarrow> m(a \<mapsto> fl a) | Some _ \<Rightarrow> m)"

lemma seq_inv_read:
  assumes "seq_inv fl floors run kept os"
  shows "seq_inv fl (read_floor fl floors a) (read_floor fl run a) kept os"
    and "read_floor fl floors a a = Some (fl a)"
    and "read_floor fl run a a = Some (running fl run a)"
    and "running fl (read_floor fl run a) = running fl run"
  using assms by (auto simp: seq_inv_def read_floor_def running_def fun_eq_iff split: option.splits)

lemma sanitize_step:
  assumes "seq_inv fl floors run kept (od # os)"
  shows "sanitize_loop (\<lambda>a. Inr (fl a)) floors run kept dead (od # os) =
    (let a = o_account od; s = o_seq od; floors' = read_floor fl floors a; run' = read_floor fl run a in
     if s \<le> fl a then sanitize_loop (\<lambda>a. Inr (fl a)) floors' run' kept (dead @ [(od, Superseded (fl a) s)]) os
     else if s \<le> running fl run a
     then sanitize_loop (\<lambda>a. Inr (fl a)) floors' run' kept (dead @ [(od, DuplicateSeq s)]) os
     else sanitize_loop (\<lambda>a. Inr (fl a)) floors' (run'(a \<mapsto> s)) (kept @ [od]) dead os)"
proof -
  have dom: "(floors (o_account od) = None) = (run (o_account od) = None)"
    and fl: "floors (o_account od) = Some f \<Longrightarrow> f = fl (o_account od)" for f
    using assms unfolding seq_inv_def dom_def by blast+
  show ?thesis
    using dom fl by (cases "floors (o_account od)")
      (auto simp: Let_def read_floor_def running_def)
qed

lemma seq_inv_tl: "seq_inv fl floors run kept (od # os) \<Longrightarrow> seq_inv fl floors run kept os"
  unfolding seq_inv_def by auto

lemma seq_inv_runD:
  assumes "seq_inv fl floors run kept (od # os)" and "run (o_account od) = Some r"
  shows "fl (o_account od) \<le> r"
    and "fl (o_account od) < r \<Longrightarrow> (\<exists>x\<in>set kept. o_account x = o_account od \<and> o_seq x = r) \<and> r \<le> o_seq od"
  using assms unfolding seq_inv_def by (metis list.set_intros(1))+

lemma seq_inv_keep:
  assumes "seq_inv fl floors run kept (od # os)" and "floors (o_account od) = Some f"
    and "fl (o_account od) < o_seq od" and "\<forall>x\<in>set os. o_account x = o_account od \<longrightarrow> o_seq od \<le> o_seq x"
  shows "seq_inv fl floors (run(o_account od \<mapsto> o_seq od)) (kept @ [od]) os"
  using assms unfolding seq_inv_def by (auto simp: dom_def)

abbreviation seq_key :: "'a order_scheme \<Rightarrow> int \<times> int" where
  "seq_key od \<equiv> (o_account od, o_seq od)"

definition sanitized :: "(int \<Rightarrow> int) \<Rightarrow> (int \<Rightarrow> int) \<Rightarrow> 'a order_scheme list \<Rightarrow> 'a dead_order list
    \<Rightarrow> 'a order_scheme list \<Rightarrow> ('a order_scheme list \<times> 'a dead_order list \<times> (int \<rightharpoonup> int)) res \<Rightarrow> bool" where
  "sanitized fl cur kept dead os r \<longleftrightarrow> (\<exists>k d fs. r = Inr (kept @ k, dead @ d, fs) \<and>
     mset os = mset k + mset (map fst d) \<and> sorted (map seq_key k) \<and> rising cur k \<and>
     (\<forall>dr\<in>set d. dead_ok fl (kept @ k) dr))"

lemma sanitized_dead:
  assumes "sanitized fl cur kept (dead @ [(od, why)]) os r" and "dead_ok fl kept (od, why)"
  shows "sanitized fl cur kept dead (od # os) r"
proof -
  obtain k d fs where *: "r = Inr (kept @ k, (dead @ [(od, why)]) @ d, fs)" "mset os = mset k + mset (map fst d)"
    "sorted (map seq_key k)" "rising cur k" "\<forall>dr\<in>set d. dead_ok fl (kept @ k) dr"
    using assms(1) unfolding sanitized_def by blast
  then show ?thesis
    unfolding sanitized_def using dead_ok_append [OF assms(2), of k]
    by (intro exI [of _ k] exI [of _ "(od, why) # d"] exI [of _ fs]) simp
qed

lemma sanitized_keep:
  assumes "sanitized fl (cur(o_account od := o_seq od)) (kept @ [od]) dead os r"
    and "cur (o_account od) < o_seq od" and "\<forall>x\<in>set os. seq_key od \<le> seq_key x"
  shows "sanitized fl cur kept dead (od # os) r"
proof -
  obtain k d fs where *: "r = Inr ((kept @ [od]) @ k, dead @ d, fs)" "mset os = mset k + mset (map fst d)"
    "sorted (map seq_key k)" "rising (cur(o_account od := o_seq od)) k" "\<forall>dr\<in>set d. dead_ok fl ((kept @ [od]) @ k) dr"
    using assms(1) unfolding sanitized_def by blast
  have "set k \<subseteq> set os"
    using *(2) by (metis set_mset_mono mset_subset_eq_add_left set_mset_mset)
  then show ?thesis
    unfolding sanitized_def using * assms(2,3)
    by (intro exI [of _ "od # k"] exI [of _ d] exI [of _ fs]) auto
qed

lemma sanitize_loop_sanitized:
  assumes "seq_inv fl floors run kept os" and "sorted (map seq_key os)"
  shows "sanitized fl (running fl run) kept dead os (sanitize_loop (\<lambda>a. Inr (fl a)) floors run kept dead os)"
  using assms
proof (induction os arbitrary: floors run kept dead)
  case Nil
  then show ?case by (simp add: sanitized_def)
next
  case (Cons od os)
  let ?a = "o_account od" and ?s = "o_seq od"
  note inv = seq_inv_read [OF Cons.prems(1), of ?a]
  have tl: "seq_inv fl (read_floor fl floors ?a) (read_floor fl run ?a) kept os" "sorted (map seq_key os)"
    using seq_inv_tl [OF inv(1)] Cons.prems(2) by simp_all
  have hd: "\<forall>x\<in>set os. seq_key od \<le> seq_key x" using Cons.prems(2) by simp
  note runD = seq_inv_runD [OF inv(1,3)]
  show ?case
  proof (cases "?s \<le> running fl run ?a")
    case True
    have "fl ?a < ?s \<Longrightarrow> \<exists>x\<in>set kept. o_account x = ?a \<and> o_seq x = ?s"
      using runD(2) True by force
    then have dead: "dead_ok fl kept (od, if ?s \<le> fl ?a then Superseded (fl ?a) ?s else DuplicateSeq ?s)"
      by (simp add: dead_ok_def)
    have "sanitize_loop (\<lambda>a. Inr (fl a)) floors run kept dead (od # os) =
        sanitize_loop (\<lambda>a. Inr (fl a)) (read_floor fl floors ?a) (read_floor fl run ?a) kept
          (dead @ [(od, if ?s \<le> fl ?a then Superseded (fl ?a) ?s else DuplicateSeq ?s)]) os"
      unfolding sanitize_step [OF Cons.prems(1)] Let_def using True by simp
    then show ?thesis
      using sanitized_dead [OF Cons.IH [OF tl] dead] by (simp only: inv(4))
  next
    case False
    have gt: "fl ?a < ?s" using False runD(1) by simp
    have "seq_inv fl (read_floor fl floors ?a) ((read_floor fl run ?a)(?a \<mapsto> ?s)) (kept @ [od]) os"
      using hd by (intro seq_inv_keep [OF inv(1,2) gt]) auto
    moreover have upd: "running fl ((read_floor fl run ?a)(?a \<mapsto> ?s)) = (running fl run)(?a := ?s)"
      using inv(4) unfolding running_def fun_eq_iff by simp
    ultimately
    have "sanitized fl ((running fl run)(?a := ?s)) (kept @ [od]) dead os
        (sanitize_loop (\<lambda>a. Inr (fl a)) (read_floor fl floors ?a) ((read_floor fl run ?a)(?a \<mapsto> ?s)) (kept @ [od]) dead os)"
      using Cons.IH [of "read_floor fl floors ?a" "(read_floor fl run ?a)(?a \<mapsto> ?s)" "kept @ [od]" dead] tl(2)
      by (simp only: upd)
    then show ?thesis
      using sanitized_keep [OF _ _ hd] False gt unfolding sanitize_step [OF Cons.prems(1)] Let_def by simp
  qed
qed

lemma seq_sanitize_sanitized:
  "sanitized fl fl [] [] (sort_key seq_key orders) (seq_sanitize (\<lambda>a. Inr (fl a)) orders)"
proof -
  have "sanitized fl (running fl Map.empty) [] [] (sort_key seq_key orders) (seq_sanitize (\<lambda>a. Inr (fl a)) orders)"
    unfolding seq_sanitize_def by (rule sanitize_loop_sanitized) (simp_all add: seq_inv_def)
  moreover have "running fl Map.empty = fl" by (rule ext) (simp add: running_def)
  ultimately show ?thesis by (simp only:)
qed

section \<open>The service accepts what the builder submits\<close>

lemma market_price_in_band:
  assumes "0 < lp"
  shows "lp * (100 - MARKET_BAND_PCT) \<le> market_price side lp * 100"
    and "market_price side lp * 100 \<le> lp * (100 + MARKET_BAND_PCT)"
proof -
  define q where q: "q = lp * 110 div 100"
  define c where c: "c = - lp * 90 div 100"
  have fl: "x div 100 * 100 \<le> x" for x :: int
    by (metis div_mult_mod_eq le_add_same_cancel1 pos_mod_sign zero_less_numeral)
  have "lp \<le> q" using zdiv_mono1 [of "lp * 100" "lp * 110" 100] assms by (simp add: q)
  moreover have "q * 100 \<le> lp * 110" unfolding q by (rule fl)
  moreover have "- lp \<le> c" using zdiv_mono1 [of "- lp * 100" "- lp * 90" 100] assms by (simp add: c)
  moreover have "c * 100 \<le> - lp * 90" unfolding c by (rule fl)
  moreover have "c < 0" using pos_imp_zdiv_neg_iff [of 100 "- lp * 90"] assms by (simp add: c)
  moreover have "market_price side lp = (if side = BUY then q else max 1 (- c))"
    by (simp add: market_price_def MARKET_BAND_PCT_def q c)
  ultimately show "lp * (100 - MARKET_BAND_PCT) \<le> market_price side lp * 100"
    and "market_price side lp * 100 \<le> lp * (100 + MARKET_BAND_PCT)"
    using assms by (simp_all add: MARKET_BAND_PCT_def max_def)
qed

text \<open>The service's vector of running floors reads as the builder's running floor.\<close>

definition vec_floor :: "(int \<Rightarrow> int) \<Rightarrow> (int \<times> int) list \<Rightarrow> int \<Rightarrow> int" where
  "vec_floor store floors a = (case map_of floors a of None \<Rightarrow> store a | Some f \<Rightarrow> f)"

lemma map_of_raise:
  "map_of (raise_floor a s fs) b
   = (if b = a then (if a \<in> fst ` set fs then Some s else None) else map_of fs b)"
proof (induction fs)
  case (Cons p fs)
  obtain x f where p: "p = (x, f)" by (cases p)
  have "a \<in> fst ` set (p # fs) \<longleftrightarrow> x = a \<or> a \<in> fst ` set fs" by (auto simp: p)
  with Cons p show ?case
    by (cases "b = a"; cases "x = a") (simp_all add: raise_floor_def del: image_insert)
qed (simp add: raise_floor_def)

lemma map_of_open:
  "map_of (open_floor store fs a) b = (if b = a then Some (vec_floor store fs a) else map_of fs b)"
proof (cases "a \<in> fst ` set fs")
  case True
  then obtain f where "map_of fs a = Some f" by (metis map_of_eq_None_iff not_None_eq)
  with True show ?thesis by (simp add: open_floor_def vec_floor_def)
next
  case False
  then have "map_of fs a = None" by (simp add: map_of_eq_None_iff)
  with False show ?thesis by (simp add: open_floor_def vec_floor_def map_add_def split: option.split)
qed

lemma open_floor_mem: "a \<in> fst ` set (open_floor store fs a)"
  by (auto simp: open_floor_def)

lemma vec_floor_raise:
  "vec_floor store (raise_floor a s (open_floor store fs a)) = (vec_floor store fs)(a := s)"
  by (rule ext) (simp add: vec_floor_def map_of_raise map_of_open open_floor_mem)

lemma check_bindings_rising:
  assumes "rising (vec_floor store floors) os"
    and "\<forall>od\<in>set os. reg (o_account od) = Some (o_pubkey od)"
    and "\<forall>od\<in>set os. o_market od \<longrightarrow> lp \<noteq> 0 \<and> \<not> out_of_band (o_price od) lp band"
  shows "check_bindings_from store reg lp band floors (map binding_of os) \<noteq> None"
  using assms
proof (induction os arbitrary: floors)
  case (Cons od os)
  have "check_bindings_from store reg lp band
      (raise_floor (o_account od) (o_seq od) (open_floor store floors (o_account od))) (map binding_of os) \<noteq> None"
    by (rule Cons.IH, unfold vec_floor_raise) (use Cons.prems in \<open>simp_all add: fun_upd_def\<close>)
  moreover have "b_account (binding_of od) = o_account od" "b_pubkey (binding_of od) = o_pubkey od"
    "b_seq (binding_of od) = o_seq od" "b_market (binding_of od) = o_market od"
    "b_price (binding_of od) = o_price od"
    by (simp_all add: binding_of_def)
  ultimately show ?case
    using Cons.prems by (simp add: Let_def map_of_open)
qed simp

lemma price_market_orders_ok:
  assumes "\<forall>od\<in>set public. reg (o_account od) = Some (o_pubkey od)"
  obtains priced dead where "price_market_orders (Inr lp) public = Inr (priced, dead)"
    and "\<forall>od\<in>set priced. reg (o_account od) = Some (o_pubkey od) \<and>
      (o_market od \<longrightarrow> lp \<noteq> 0 \<and> \<not> out_of_band (o_price od) lp MARKET_BAND_PCT)"
proof -
  consider "filter o_market public = []" | "filter o_market public \<noteq> []" "lp \<le> 0"
    | "filter o_market public \<noteq> []" "0 < lp" by linarith
  then show thesis
  proof cases
    case 1
    then show ?thesis using assms
      by (intro that [of public "[]"]) (auto simp: price_market_orders_def filter_empty_conv)
  next
    case 2
    then show ?thesis using assms
      by (intro that [of "filter (\<lambda>od. \<not> o_market od) public"
            "map (\<lambda>od. (od, NoLastPrice)) (filter o_market public)"]) (auto simp: price_market_orders_def)
  next
    case 3
    then show ?thesis using assms market_price_in_band [OF 3(2)]
      by (intro that [of "map (\<lambda>od. if o_market od then od\<lparr>o_price := market_price (o_side od) lp\<rparr> else od) public" "[]"])
        (auto simp: price_market_orders_def out_of_band_def not_less)
  qed
qed

section \<open>Properties\<close>

lemma cap_batch_prefix:
  obtains n where "fst (cap_batch orders cap gas budget sc)
    = filter (\<lambda>od. gas_of gas od \<le> budget) (take n (redeal orders))"
  using fill_batch_prefix [of cap gas budget sc 0 0 0 "redeal orders"]
  by (auto simp: cap_batch_def Let_def)

lemma cap_batch_oldest:
  assumes "od \<in> set (fst (cap_batch orders cap gas budget sc))"
    and "x \<in> set (snd (cap_batch orders cap gas budget sc))"
    and "pub_of a od" and "pub_of a x" and "gas_of gas x = gas_of gas od"
  shows "o_seq od \<le> o_seq x"
proof -
  let ?out = "redeal orders"
  obtain n where n: "fst (cap_batch orders cap gas budget sc)
      = filter (\<lambda>od. gas_of gas od \<le> budget) (take n ?out)"
    by (rule cap_batch_prefix)
  have od: "od \<in> set (filter (pub_of a) (take n ?out))" "gas_of gas od \<le> budget"
    using assms(1,3) unfolding n by simp_all
  have x: "x \<in> set ?out" "x \<notin> set (fst (cap_batch orders cap gas budget sc))"
    using assms(2) by (auto simp: cap_batch_def Let_def)
  then have "x \<notin> set (take n ?out)" using od(2) assms(5) unfolding n by simp
  moreover have "x \<in> set (take n ?out) \<union> set (drop n ?out)"
    using x(1) by (simp only: append_take_drop_id flip: set_append)
  ultimately have "x \<in> set (filter (pub_of a) (drop n ?out))" using assms(4) by auto
  moreover have "sorted (map o_seq (filter (pub_of a) ?out))" unfolding redeal_pub by simp
  then have "sorted (map o_seq (filter (pub_of a) (take n ?out)) @ map o_seq (filter (pub_of a) (drop n ?out)))"
    by (simp only: append_take_drop_id flip: map_append filter_append)
  ultimately show ?thesis using od(1) unfolding sorted_append by auto
qed

lemma cap_batch_split:
  assumes "distinct orders" and "inj_on o_uid (set orders)"
  shows "mset orders = mset (fst (cap_batch orders cap gas budget sc)) + mset (snd (cap_batch orders cap gas budget sc))"
proof -
  let ?b = "fst (cap_batch orders cap gas budget sc)"
  have sub: "set ?b \<subseteq> set orders"
    using set_mset_mono [OF cap_batch_sub, of orders cap gas budget sc] by simp
  have dist: "distinct ?b" "distinct (redeal orders)"
    using distinct_subseteq_mset [OF cap_batch_sub] assms(1) mset_eq_imp_distinct_iff [OF mset_redeal]
    by blast+
  have "snd (cap_batch orders cap gas budget sc) = filter (\<lambda>x. o_uid x \<notin> uids ?b) (redeal orders)"
    by (simp add: cap_batch_def Let_def)
  also have "\<dots> = filter (\<lambda>x. x \<notin> set ?b) (redeal orders)"
    using inj_on_image_mem_iff [OF assms(2) _ sub] by (intro filter_cong) auto
  finally show ?thesis
    using mset_select_rest [OF dist(2,1)] sub by simp
qed

text \<open>A queue for the witnesses: account 1 has seq 5 queued ahead of seq 3.\<close>

definition seq_order :: "int \<Rightarrow> int \<Rightarrow> int \<Rightarrow> int \<Rightarrow> int \<Rightarrow> order" where
  "seq_order i a sq s p = (mk_order i s p 1)\<lparr>o_account := a, o_seq := sq, o_pubkey := [word_of_int a]\<rparr>"

definition seq_queue :: "order list" where
  "seq_queue = [seq_order 1 1 5 BUY 100, seq_order 2 2 7 BUY 100, seq_order 3 1 3 SELL 90]"

definition unit_gas :: "(order \<Rightarrow> nat) option" where
  "unit_gas = Some (\<lambda>_. 4)"

text \<open>C14: the cap splits the queue into a batch and an overflow, exactly; the batch respects the order
  count, the gas budget and the sealed cap; and no public order waits in the overflow while a
  newer one of its account is in the batch (public orders cost the same gas).\<close>

theorem cap_batch_sound:
  assumes "distinct orders" and "inj_on o_uid (set orders)"
    and "\<forall>x\<in>set orders. \<forall>y\<in>set orders. \<not> o_sealed x \<and> \<not> o_sealed y \<longrightarrow> gas_of gas x = gas_of gas y"
    and "cap_batch orders cap gas budget sealed_cap = (batch, overflow)"
  shows "mset orders = mset batch + mset overflow \<and>
    length batch \<le> cap \<and> sum_list (map (gas_of gas) batch) \<le> budget \<and>
    (\<forall>c. sealed_cap = Some c \<longrightarrow> length (filter o_sealed batch) \<le> c) \<and>
    (\<forall>od\<in>set batch. \<forall>x\<in>set overflow. \<not> o_sealed od \<and> \<not> o_sealed x \<and> o_account od = o_account x
       \<longrightarrow> o_seq od \<le> o_seq x)"
proof (intro conjI ballI impI allI)
  have b: "fst (cap_batch orders cap gas budget sealed_cap) = batch"
    "snd (cap_batch orders cap gas budget sealed_cap) = overflow"
    using assms(4) by simp_all
  then have batch: "batch = fill_batch cap gas budget sealed_cap 0 0 0 (redeal orders)"
    by (simp add: cap_batch_def Let_def)
  show part: "mset orders = mset batch + mset overflow"
    using cap_batch_split [OF assms(1,2), of cap gas budget sealed_cap] b by simp
  show "length batch \<le> cap" using fill_batch_length [of 0 cap] unfolding batch by simp
  show "sum_list (map (gas_of gas) batch) \<le> budget" using fill_batch_gas [of 0 budget] unfolding batch by simp
  show "length (filter o_sealed batch) \<le> c" if "sealed_cap = Some c" for c
    using fill_batch_sealed [of 0 c] that unfolding batch by simp
  fix od x assume h: "od \<in> set batch" "x \<in> set overflow"
    "\<not> o_sealed od \<and> \<not> o_sealed x \<and> o_account od = o_account x"
  then have "od \<in> set orders" "x \<in> set orders"
    using mset_eq_setD [of orders "batch @ overflow"] part by auto
  then have "gas_of gas x = gas_of gas od" using assms(3) h(3) by blast
  then show "o_seq od \<le> o_seq x"
    using h cap_batch_oldest [of od orders cap gas budget sealed_cap x "o_account x"] b
    by (simp add: pub_of_def)
qed

theorem cap_batch_sound_witness:
  "(case cap_batch seq_queue 2 unit_gas 9 None of (batch, overflow) \<Rightarrow>
     map o_seq batch = [3, 7] \<and> map o_seq overflow = [5] \<and>
     mset seq_queue = mset batch + mset overflow \<and> length batch \<le> 2)"
proof -
  obtain batch overflow where b: "cap_batch seq_queue 2 unit_gas 9 None = (batch, overflow)" by fastforce
  have "distinct seq_queue" "inj_on o_uid (set seq_queue)"
    "\<forall>x\<in>set seq_queue. \<forall>y\<in>set seq_queue. \<not> o_sealed x \<and> \<not> o_sealed y \<longrightarrow> gas_of unit_gas x = gas_of unit_gas y"
    by code_simp+
  note s = cap_batch_sound [OF this b]
  have "map o_seq (fst (cap_batch seq_queue 2 unit_gas 9 None)) = [3, 7]"
    "map o_seq (snd (cap_batch seq_queue 2 unit_gas 9 None)) = [5]" by code_simp+
  with s b show ?thesis by simp
qed

text \<open>C15: the sequence discipline, with every floor readable: each order is kept or declared dead,
  once; the kept ones are in (account, seq) order; an order is dead only because its seq is at
  or below its account's on-chain floor, or because a kept order carries the same seq.\<close>

theorem seq_sanitize_exact:
  "\<exists>kept dead floors. seq_sanitize (\<lambda>a. Inr (fl a)) orders = Inr (kept, dead, floors) \<and>
     mset orders = mset kept + mset (map fst dead) \<and> sorted (map seq_key kept) \<and>
     rising fl kept \<and> list_all (dead_ok fl kept) dead"
proof -
  obtain k d fs where "seq_sanitize (\<lambda>a. Inr (fl a)) orders = Inr ([] @ k, [] @ d, fs)"
    "mset (sort_key seq_key orders) = mset k + mset (map fst d)" "sorted (map seq_key k)" "rising fl k"
    "\<forall>dr\<in>set d. dead_ok fl ([] @ k) dr"
    using seq_sanitize_sanitized [of fl orders] unfolding sanitized_def by blast
  then show ?thesis
    by (intro exI [of _ k] exI [of _ d] exI [of _ fs]) (simp add: list_all_iff)
qed

text \<open>C4: the service never rejects a round for the builder's public orders. Whatever the queue
  holds, after re-pricing at the last price and the sequence discipline (both computed from
  the floors and the price the service will check against), \<open>check_bindings\<close> accepts the kept
  orders, given that each carries its account's registered key.\<close>

theorem builder_round_accepted:
  assumes "\<forall>od\<in>set public. reg (o_account od) = Some (o_pubkey od)"
  shows "\<exists>priced dead kept stale floors.
    price_market_orders (Inr lp) public = Inr (priced, dead) \<and>
    seq_sanitize (\<lambda>a. Inr (fl a)) priced = Inr (kept, stale, floors) \<and>
    check_bindings (map binding_of kept) fl reg lp MARKET_BAND_PCT \<noteq> None"
proof -
  obtain priced dead where p: "price_market_orders (Inr lp) public = Inr (priced, dead)"
    and ok: "\<forall>od\<in>set priced. reg (o_account od) = Some (o_pubkey od) \<and>
      (o_market od \<longrightarrow> lp \<noteq> 0 \<and> \<not> out_of_band (o_price od) lp MARKET_BAND_PCT)"
    by (rule price_market_orders_ok [OF assms])
  obtain k d fs where k: "seq_sanitize (\<lambda>a. Inr (fl a)) priced = Inr (k, d, fs)"
    "mset (sort_key seq_key priced) = mset k + mset (map fst d)" "rising fl k"
    using seq_sanitize_sanitized [of fl priced] unfolding sanitized_def by auto
  have "set k \<subseteq> set priced"
    using k(2) by (metis mset_sort set_mset_mono mset_subset_eq_add_left set_mset_mset)
  moreover have "vec_floor fl [] = fl" by (rule ext) (simp add: vec_floor_def)
  ultimately have "check_bindings (map binding_of k) fl reg lp MARKET_BAND_PCT \<noteq> None"
    unfolding check_bindings_def using ok k(3) by (intro check_bindings_rising) auto
  with p k(1) show ?thesis by blast
qed

theorem builder_round_accepted_witness:
  "\<exists>priced dead kept stale floors.
    price_market_orders (Inr 100) seq_queue = Inr (priced, dead) \<and>
    seq_sanitize (\<lambda>a. Inr 2) priced = Inr (kept, stale, floors) \<and>
    check_bindings (map binding_of kept) (\<lambda>_. 2) (\<lambda>a. Some [word_of_int a]) 100 MARKET_BAND_PCT \<noteq> None"
  by (rule builder_round_accepted) (simp_all add: seq_queue_def seq_order_def)

text \<open>C7: the bounded plan, under the server's own cap. Every queued order is placed exactly once;
  what is submitted (reveals and public orders) is exactly one batch of the cap over
  candidates that include every public order; and every revealed order is sealed, has its
  commit ready, and has a counterparty in that batch or in the resting book.\<close>

theorem plan_batch_sound:
  assumes "wf_sides pending" and "distinct pending" and "inj_on o_uid (set pending)"
    and p: "p = plan_batch pending resting (\<lambda>cs. cap_batch cs cap gas budget sealed_cap) now sealed_ready"
  shows "mset pending = mset (rp_reveal p) + mset (rp_public p) + mset (rp_carry p)
      + mset (rp_expired p) + mset (rp_deferred p) + mset (rp_overflow p) \<and>
    (\<exists>cands. mset cands \<subseteq># mset pending \<and> public_of cands = public_of pending \<and>
       mset (rp_reveal p @ rp_public p) = mset (fst (cap_batch cands cap gas budget sealed_cap))) \<and>
    length (rp_reveal p @ rp_public p) \<le> cap \<and>
    (\<forall>od\<in>set (rp_reveal p). o_sealed od \<and> ready_pred sealed_ready od \<and>
       (\<exists>x\<in>set (resting @ rp_public p @ rp_reveal p). matches od x))"
proof (intro conjI ballI)
  show "mset pending = mset (rp_reveal p) + mset (rp_public p) + mset (rp_carry p)
      + mset (rp_expired p) + mset (rp_deferred p) + mset (rp_overflow p)"
    by (rule cap.plan_batch_partition [OF assms])
  show ex: "\<exists>cands. mset cands \<subseteq># mset pending \<and> public_of cands = public_of pending \<and>
       mset (rp_reveal p @ rp_public p) = mset (fst (cap_batch cands cap gas budget sealed_cap))"
    by (rule cap.plan_batch_batch [OF assms])
  then obtain cands where "mset (rp_reveal p @ rp_public p) = mset (fst (cap_batch cands cap gas budget sealed_cap))"
    by blast
  then have "length (rp_reveal p @ rp_public p) = length (fst (cap_batch cands cap gas budget sealed_cap))"
    by (rule mset_eq_length)
  then show "length (rp_reveal p @ rp_public p) \<le> cap"
    using fill_batch_length [of 0 cap gas budget sealed_cap 0 0 "redeal cands"] by (simp add: cap_batch_def Let_def)
  fix od assume "od \<in> set (rp_reveal p)"
  from cap.plan_batch_reveals_trade [OF assms this]
  show "o_sealed od" "ready_pred sealed_ready od"
    "\<exists>x\<in>set (resting @ rp_public p @ rp_reveal p). matches od x" by blast+
qed

theorem plan_batch_sound_witness:
  "(let p = plan_batch sample_queue sample_ask (\<lambda>cs. cap_batch cs 1 unit_gas 9 None) 0 sample_ready in
     map o_oid (rp_reveal p) = [1] \<and> map o_oid (rp_overflow p) = [3] \<and>
     length (rp_reveal p @ rp_public p) \<le> 1 \<and>
     mset sample_queue = mset (rp_reveal p) + mset (rp_public p) + mset (rp_carry p)
       + mset (rp_expired p) + mset (rp_deferred p) + mset (rp_overflow p))"
proof -
  let ?p = "plan_batch sample_queue sample_ask (\<lambda>cs. cap_batch cs 1 unit_gas 9 None) 0 sample_ready"
  have "wf_sides sample_queue" "distinct sample_queue" "inj_on o_uid (set sample_queue)" by code_simp+
  note s = plan_batch_sound [OF this refl, of sample_ask 1 unit_gas 9 None 0 sample_ready]
  have "map o_oid (rp_reveal ?p) = [1]" "map o_oid (rp_overflow ?p) = [3]" by code_simp+
  with s show ?thesis unfolding Let_def by blast
qed


end
