(* ===== verification/Treasury.thy ===== *)
theory Treasury
  imports Prelude
begin

text \<open>
  \<^verbatim>\<open>src/offchain/treasury.py\<close>: state rent, profit and the reserve keeper's rule. Balances are Python
  ints; the treasury dict is an association list in its insertion order (asset ids are keys, so
  they are distinct), and \<open>withdrawable\<close> keeps that order.
\<close>

section \<open>The model\<close>

definition USDC :: int where "USDC = 0"
definition DOT :: int where "DOT = 1"
definition JAMKB :: int where "JAMKB = 2"

definition JAMKB_SUPPLY :: int where "JAMKB_SUPPLY = 1048576"

definition jamkb_rent :: "int \<Rightarrow> int" where
  "jamkb_rent footprint_octets = (footprint_octets + 1023) div 1024"

type_synonym balances = "(int \<times> int) list"

text \<open>\<^verbatim>\<open>d.get(k, 0)\<close>\<close>

definition get0 :: "balances \<Rightarrow> int \<Rightarrow> int" where
  "get0 d k = (case map_of d k of None \<Rightarrow> 0 | Some v \<Rightarrow> v)"

record split =
  sp_rent_reserve :: int
  sp_reserve_held :: int
  sp_shortfall :: int
  sp_over_reserved :: int
  sp_solvent :: bool
  sp_withdrawable :: balances

definition profit_split :: "balances \<Rightarrow> int \<Rightarrow> split" where
  "profit_split treasury rent_reserve =
     (let jamkb_bal = get0 treasury JAMKB;
          reserve = min jamkb_bal rent_reserve;
          shortfall = max 0 (rent_reserve - jamkb_bal);
          over_reserved = max 0 (jamkb_bal - rent_reserve);
          solvent = (shortfall = 0)
      in \<lparr>sp_rent_reserve = rent_reserve, sp_reserve_held = reserve, sp_shortfall = shortfall,
          sp_over_reserved = over_reserved, sp_solvent = solvent,
          sp_withdrawable = map (\<lambda>(asset, bal).
            (asset, if asset = JAMKB then 0 else if \<not> solvent then 0 else bal)) treasury\<rparr>)"

definition max_withdrawable :: "balances \<Rightarrow> int \<Rightarrow> int \<Rightarrow> int" where
  "max_withdrawable treasury rent_reserve asset =
     get0 (sp_withdrawable (profit_split treasury rent_reserve)) asset"

definition reserve_target :: "int \<Rightarrow> int \<Rightarrow> int \<Rightarrow> int" where
  "reserve_target obligation buffer_kb supply_cap = min (obligation + max 0 buffer_kb) supply_cap"

definition topup_due :: "int \<Rightarrow> int \<Rightarrow> int \<Rightarrow> int" where
  "topup_due held target buffer =
     (let short = target - held in if max 1 (buffer div 2) \<le> short then short else 0)"

definition solvency :: "int \<Rightarrow> int \<Rightarrow> bool \<times> int" where
  "solvency jamkb_held rent_reserve =
     (let shortfall = max 0 (rent_reserve - jamkb_held) in (shortfall = 0, shortfall))"

section \<open>Lemmas\<close>

lemma get0_map_snd:
  "get0 (map (\<lambda>(a, b). (a, f a b)) d) k = (case map_of d k of None \<Rightarrow> 0 | Some v \<Rightarrow> f k v)"
  by (induction d) (auto simp: get0_def)

lemma max_withdrawable_eq:
  "max_withdrawable treasury r asset =
     (if asset = JAMKB \<or> get0 treasury JAMKB < r then 0 else get0 treasury asset)"
proof -
  have "(max 0 (r - get0 treasury JAMKB) = 0) = (\<not> get0 treasury JAMKB < r)" by (auto simp: max_def)
  then show ?thesis
    unfolding max_withdrawable_def profit_split_def Let_def split.simps get0_map_snd
    by (cases "map_of treasury asset") (simp_all add: get0_def [of treasury asset])
qed

lemma jamkb_rent_bounds:
  assumes "0 \<le> n"
  shows "n \<le> 1024 * jamkb_rent n" and "1024 * jamkb_rent n \<le> n + 1023"
proof -
  define q where "q = jamkb_rent n"
  have "n + 1023 = 1024 * q + (n + 1023) mod 1024"
    unfolding q_def jamkb_rent_def by simp
  moreover have "0 \<le> (n + 1023) mod 1024" "(n + 1023) mod 1024 < 1024" by simp_all
  ultimately show "n \<le> 1024 * jamkb_rent n" "1024 * jamkb_rent n \<le> n + 1023"
    unfolding q_def [symmetric] by linarith+
qed

section \<open>Properties\<close>

text \<open>C18: rent comes first. Withdrawing any allowed amount of any asset leaves the JAMKB balance
  untouched and the obligation exactly as covered as before; while the reserve is short
  nothing at all is withdrawable, and JAMKB never is.\<close>

theorem withdrawal_keeps_reserve:
  assumes "distinct (map fst treasury)" and "0 \<le> get0 treasury asset"
    and "0 \<le> x" and "x \<le> max_withdrawable treasury r asset"
    and t': "t' = map (\<lambda>(a, b). (a, if a = asset then b - x else b)) treasury"
  shows "get0 t' JAMKB = get0 treasury JAMKB \<and> 0 \<le> get0 t' asset \<and>
    sp_solvent (profit_split t' r) = sp_solvent (profit_split treasury r) \<and>
    (get0 treasury JAMKB < r \<longrightarrow> x = 0) \<and> (asset = JAMKB \<longrightarrow> x = 0)"
proof -
  have get: "get0 t' a = (case map_of treasury a of None \<Rightarrow> 0 | Some b \<Rightarrow> if a = asset then b - x else b)" for a
    unfolding t' by (rule get0_map_snd)
  have x0: "get0 treasury JAMKB < r \<or> asset = JAMKB \<Longrightarrow> x = 0"
    using assms(3,4) by (auto simp: max_withdrawable_eq)
  have le: "x \<le> get0 treasury asset"
    using assms(2,4) by (auto simp: max_withdrawable_eq split: if_splits)
  have same: "get0 t' JAMKB = get0 treasury JAMKB"
    unfolding get using x0 by (cases "map_of treasury JAMKB") (auto simp: get0_def)
  moreover have "0 \<le> get0 t' asset"
    unfolding get using le by (cases "map_of treasury asset") (simp_all add: get0_def)
  moreover have "sp_solvent (profit_split t' r) = sp_solvent (profit_split treasury r)"
    by (simp add: profit_split_def Let_def same)
  ultimately show ?thesis using x0 by blast
qed

theorem withdrawal_keeps_reserve_witness:
  "get0 [(USDC, 20), (JAMKB, 40)] JAMKB = 40 \<and> max_withdrawable [(USDC, 50), (JAMKB, 40)] 40 USDC = 50"
proof -
  have "get0 (map (\<lambda>(a, b). (a, if a = USDC then b - 30 else b)) [(USDC, 50), (JAMKB, 40)]) JAMKB
      = get0 [(USDC, 50), (JAMKB, 40)] JAMKB"
    by (rule withdrawal_keeps_reserve [of "[(USDC, 50), (JAMKB, 40)]" USDC 30 40, OF _ _ _ _ refl, THEN conjunct1])
      code_simp+
  moreover have "map (\<lambda>(a, b). (a, if a = USDC then b - 30 else b)) [(USDC, 50), (JAMKB, 40)]
      = [(USDC, 20), (JAMKB, 40 :: int)]"
    by (simp add: USDC_def JAMKB_def)
  moreover have "get0 [(USDC, 50), (JAMKB, 40)] JAMKB = 40"
    "max_withdrawable [(USDC, 50), (JAMKB, 40)] 40 USDC = 50" by code_simp+
  ultimately show ?thesis by simp
qed





end
