(* ===== verification/Metrics.thy ===== *)
theory Metrics
  imports Effects
begin

text \<open>
  \<^verbatim>\<open>src/offchain/metrics.py\<close>: the Prometheus registry (counters, gauges, histograms) and the pending
  ledger of relayed operations. The closures the module stores (settle predicates and lazy gauges) are
  values of a type \<open>'c\<close>; what calling one gives is passed to the operation that calls it. \<^verbatim>\<open>render\<close> gives
  the exposition as structured lines; the text layout of a line (\<^verbatim>\<open>_fmt_labels\<close> and the number formats)
  is not modelled. The locks only make each operation atomic, which a function is.
\<close>

section \<open>The registry\<close>

type_synonym labels = "(string \<times> string) list"
type_synonym series = "string \<times> labels"

definition BUCKETS :: "rat list" where
  "BUCKETS = [3, 6, 12, 18, 24, 30, 45, 60, 90, 120, 180, 300, 600]"

record hist =
  h_buckets :: "nat list"
  h_sum :: rat
  h_count :: nat

record 'c entry =
  e_id :: nat
  e_op :: string
  e_detail :: string
  e_submitted :: time
  e_settled :: "time option"
  e_timed_out :: bool
  e_refused :: bool
  e_check :: "'c option"

record 'c registry =
  m_counters :: "(series, rat) dict"
  m_gauge_cbs :: "(string, 'c) dict"
  m_help :: "(string, string) dict"
  m_hist :: "(series, hist) dict"
  m_gauges :: "(series, rat) dict"
  m_ledger :: "'c entry list"
  m_seq :: nat

definition labels_key :: "labels \<Rightarrow> labels" where
  "labels_key ls = sort ls"

definition describe :: "string \<Rightarrow> string \<Rightarrow> 'c registry \<Rightarrow> 'c registry" where
  "describe name help_text r = r\<lparr>m_help := dset name help_text (m_help r)\<rparr>"

definition inc :: "string \<Rightarrow> labels \<Rightarrow> rat \<Rightarrow> 'c registry \<Rightarrow> 'c registry" where
  "inc name ls n r =
     (let k = (name, labels_key ls)
      in r\<lparr>m_counters := dset k (dget_or (m_counters r) k 0 + n) (m_counters r)\<rparr>)"

definition gauge_fn :: "string \<Rightarrow> string \<Rightarrow> 'c \<Rightarrow> 'c registry \<Rightarrow> 'c registry" where
  "gauge_fn name help_text fn r =
     r\<lparr>m_help := dset name help_text (m_help r), m_gauge_cbs := dset name fn (m_gauge_cbs r)\<rparr>"

definition set_gauge :: "string \<Rightarrow> labels \<Rightarrow> rat \<Rightarrow> 'c registry \<Rightarrow> 'c registry" where
  "set_gauge name ls v r = r\<lparr>m_gauges := dset (name, labels_key ls) v (m_gauges r)\<rparr>"

definition empty_hist :: hist where
  "empty_hist = \<lparr>h_buckets = replicate (length BUCKETS) 0, h_sum = 0, h_count = 0\<rparr>"

definition hist_add :: "rat \<Rightarrow> hist \<Rightarrow> hist" where
  "hist_add v h = \<lparr>h_buckets = map2 (\<lambda>b n. if v \<le> b then n + 1 else n) BUCKETS (h_buckets h),
     h_sum = h_sum h + v, h_count = h_count h + 1\<rparr>"

definition observe :: "string \<Rightarrow> labels \<Rightarrow> rat \<Rightarrow> 'c registry \<Rightarrow> 'c registry" where
  "observe name ls v r =
     (let k = (name, labels_key ls)
      in r\<lparr>m_hist := dset k (hist_add v (dget_or (m_hist r) k empty_hist)) (m_hist r)\<rparr>)"

text \<open>The lines of the exposition.\<close>

datatype line =
    Help string string
  | Type string string
  | Value string labels rat
  | Bucket string labels "rat option" nat
  | Sum string labels rat
  | Count string labels nat

definition header :: "(string, string) dict \<Rightarrow> string \<Rightarrow> string list \<Rightarrow> string \<Rightarrow> line list" where
  "header help kind seen name =
     (if name \<in> set seen then []
      else (case dget help name of None \<Rightarrow> [] | Some t \<Rightarrow> [Help name t]) @ [Type name kind])"

text \<open>One group of samples: a name's header goes before its first sample. Gives the lines and the
  names seen.\<close>

fun render_group :: "(string, string) dict \<Rightarrow> string \<Rightarrow> (series \<Rightarrow> 'v \<Rightarrow> line list) \<Rightarrow> (series \<times> 'v) list \<Rightarrow>
    string list \<Rightarrow> line list \<times> string list" where
  "render_group help kind body [] seen = ([], seen)"
| "render_group help kind body ((k, v) # xs) seen =
     (let hd = header help kind seen (fst k);
          (rest, seen') = render_group help kind body xs (if fst k \<in> set seen then seen else fst k # seen)
      in (hd @ body k v @ rest, seen'))"

definition hist_lines :: "series \<Rightarrow> hist \<Rightarrow> line list" where
  "hist_lines k h =
     map2 (\<lambda>b n. Bucket (fst k) (snd k) (Some b) n) BUCKETS (h_buckets h) @
     [Bucket (fst k) (snd k) None (h_count h), Sum (fst k) (snd k) (h_sum h), Count (fst k) (snd k) (h_count h)]"

definition render :: "('c \<Rightarrow> rat res) \<Rightarrow> 'c registry \<Rightarrow> line list" where
  "render call r =
     (let value = (\<lambda>k v. [Value (fst k) (snd k) v]);
          (gauges, _) = render_group (m_help r) ''gauge'' value (sort_key fst (m_gauges r)) [];
          (counters, seen) = render_group (m_help r) ''counter'' value (sort_key fst (m_counters r)) [];
          (hists, _) = render_group (m_help r) ''histogram'' hist_lines (sort_key fst (m_hist r)) seen
      in gauges @ counters @ hists @
         concat (map (\<lambda>(name, fn). case call fn of
             Inl _ \<Rightarrow> []
           | Inr v \<Rightarrow> [Help name (dget_or (m_help r) name []), Type name ''gauge'', Value name [] v]) (m_gauge_cbs r)))"

section \<open>The pending ledger\<close>

definition SETTLE_TIMEOUT :: time where "SETTLE_TIMEOUT = 600"
definition LEDGER_KEEP :: nat where "LEDGER_KEEP = 100"

text \<open>Python's truth of an optional time: absent and 0 are false.\<close>

definition truthy :: "time option \<Rightarrow> bool" where
  "truthy t = (case t of None \<Rightarrow> False | Some x \<Rightarrow> x \<noteq> 0)"

definition resolved :: "'c entry \<Rightarrow> bool" where
  "resolved x \<longleftrightarrow> truthy (e_settled x) \<or> e_timed_out x \<or> e_check x = None"

definition track :: "string \<Rightarrow> string \<Rightarrow> 'c option \<Rightarrow> time \<Rightarrow> 'c registry \<Rightarrow> nat \<times> 'c registry" where
  "track op detail check now r0 =
     (let r = inc ''jamswap_submits_total'' [(''op'', op)] 1 r0;
          e = \<lparr>e_id = m_seq r, e_op = op, e_detail = detail, e_submitted = now, e_settled = None,
               e_timed_out = False, e_refused = False, e_check = check\<rparr>;
          ledger = m_ledger r @ [e];
          done = filter resolved ledger
      in (e_id e, r\<lparr>m_seq := m_seq r + 1,
                    m_ledger := fold remove1 (take (length done - LEDGER_KEEP) done) ledger\<rparr>))"

definition set_entry :: "nat \<Rightarrow> ('c entry \<Rightarrow> 'c entry) \<Rightarrow> 'c registry \<Rightarrow> 'c registry" where
  "set_entry i f r = r\<lparr>m_ledger := map (\<lambda>e. if e_id e = i then f e else e) (m_ledger r)\<rparr>"

definition refused :: "nat \<Rightarrow> 'c registry \<Rightarrow> 'c registry" where
  "refused entry_id r =
     (case find (\<lambda>e. e_id e = entry_id) (m_ledger r) of
        None \<Rightarrow> r
      | Some e \<Rightarrow> inc ''jamswap_refused_total'' [(''op'', e_op e)] 1
          (set_entry entry_id (\<lambda>e. e\<lparr>e_refused := True, e_check := None\<rparr>) r))"

datatype op_state = Refused | Settled | Timed_out | Pending | Submitted

record pending_row =
  pr_id :: nat
  pr_op :: string
  pr_detail :: string
  pr_state :: op_state
  pr_age :: time
  pr_latency :: "time option"

definition entry_state :: "'c entry \<Rightarrow> op_state" where
  "entry_state e = (if e_refused e then Refused else if truthy (e_settled e) then Settled
     else if e_timed_out e then Timed_out else if e_check e \<noteq> None then Pending else Submitted)"

definition pending_snapshot :: "time \<Rightarrow> 'c registry \<Rightarrow> pending_row list" where
  "pending_snapshot now r =
     map (\<lambda>e. \<lparr>pr_id = e_id e, pr_op = e_op e, pr_detail = e_detail e, pr_state = entry_state e,
               pr_age = round_to 1 (now - e_submitted e),
               pr_latency = (if truthy (e_settled e) then Some (round_to 1 (the (e_settled e) - e_submitted e)) else None)\<rparr>)
       (rev (drop (length (m_ledger r) - LEDGER_KEEP) (m_ledger r)))"

definition is_open_entry :: "'c entry \<Rightarrow> bool" where
  "is_open_entry e \<longleftrightarrow> e_check e \<noteq> None \<and> \<not> truthy (e_settled e) \<and> \<not> e_timed_out e"

text \<open>One open entry of a watcher sweep: \<open>call\<close> gives what its predicate returns.\<close>

definition watch_entry :: "('c \<Rightarrow> bool res) \<Rightarrow> time \<Rightarrow> 'c entry \<Rightarrow> 'c registry \<Rightarrow> 'c registry" where
  "watch_entry call now e r =
     (case call (the (e_check e)) of
        Inl _ \<Rightarrow> r
      | Inr done \<Rightarrow>
          if done then
            observe ''jamswap_settle_latency_seconds'' [(''op'', e_op e)] (now - e_submitted e)
              (inc ''jamswap_settled_total'' [(''op'', e_op e)] 1 (set_entry (e_id e) (\<lambda>e. e\<lparr>e_settled := Some now\<rparr>) r))
          else if SETTLE_TIMEOUT < now - e_submitted e then
            inc ''jamswap_settle_timeouts_total'' [(''op'', e_op e)] 1
              (set_entry (e_id e) (\<lambda>e. e\<lparr>e_timed_out := True\<rparr>) r)
          else r)"

definition watch :: "('c \<Rightarrow> bool res) \<Rightarrow> time \<Rightarrow> 'c registry \<Rightarrow> 'c registry" where
  "watch call now r = fold (watch_entry call now) (filter is_open_entry (m_ledger r)) r"

section \<open>Histograms\<close>

lemma fold_hist_add:
  assumes "length (h_buckets h) = length BUCKETS"
  shows "length (h_buckets (fold hist_add vs h)) = length BUCKETS \<and>
    (\<forall>i < length BUCKETS. h_buckets (fold hist_add vs h) ! i
       = h_buckets h ! i + length (filter (\<lambda>v. v \<le> BUCKETS ! i) vs)) \<and>
    h_sum (fold hist_add vs h) = h_sum h + sum_list vs \<and> h_count (fold hist_add vs h) = h_count h + length vs"
  using assms
proof (induction vs arbitrary: h)
  case Nil
  then show ?case by simp
next
  case (Cons v vs)
  have "length (h_buckets (hist_add v h)) = length BUCKETS" using Cons.prems by (simp add: hist_add_def)
  from Cons.IH [OF this] show ?case
    using Cons.prems by (simp add: hist_add_def)
qed

lemma BUCKETS_sorted: "sorted BUCKETS"
  by (simp add: BUCKETS_def)

lemma fold_observe:
  "dget_or (m_hist (fold (observe name ls) vs r)) (name, labels_key ls) empty_hist
     = fold hist_add vs (dget_or (m_hist r) (name, labels_key ls) empty_hist)"
  by (induction vs arbitrary: r) (simp_all add: observe_def Let_def)

section \<open>The ledger\<close>

definition ledger_inv :: "'c registry \<Rightarrow> bool" where
  "ledger_inv r \<longleftrightarrow> distinct (map e_id (m_ledger r)) \<and> (\<forall>e\<in>set (m_ledger r). e_id e < m_seq r \<and>
     \<not> (truthy (e_settled e) \<and> e_timed_out e))"

lemma metrics_frame [simp]:
  "m_ledger (inc n ls k r) = m_ledger r" "m_seq (inc n ls k r) = m_seq r"
  "m_ledger (observe n ls v r) = m_ledger r" "m_seq (observe n ls v r) = m_seq r"
  "m_ledger (set_gauge n ls v r) = m_ledger r" "m_seq (set_gauge n ls v r) = m_seq r"
  "m_seq (set_entry i f r) = m_seq r" "m_counters (set_entry i f r) = m_counters r"
  by (simp_all add: inc_def observe_def set_gauge_def set_entry_def Let_def)

lemma fold_remove1_distinct: "distinct l \<Longrightarrow> fold remove1 xs l = filter (\<lambda>x. x \<notin> set xs) l"
  by (induction xs arbitrary: l) (auto simp: distinct_remove1_removeAll removeAll_filter_not_eq intro!: filter_cong)

lemma filter_not_take: "distinct xs \<Longrightarrow> filter (\<lambda>x. x \<notin> set (take k xs)) xs = drop k xs"
proof -
  assume d: "distinct xs"
  have dis: "set (take k xs) \<inter> set (drop k xs) = {}"
    by (rule set_take_disj_set_drop_if_distinct [OF d]) simp
  have "filter (\<lambda>x. x \<notin> set (take k xs)) (take k xs @ drop k xs)
      = filter (\<lambda>x. x \<notin> set (take k xs)) (take k xs) @ filter (\<lambda>x. x \<notin> set (take k xs)) (drop k xs)"
    by (rule filter_append)
  also have "filter (\<lambda>x. x \<notin> set (take k xs)) (take k xs) = []" by (simp add: filter_empty_conv)
  also have "filter (\<lambda>x. x \<notin> set (take k xs)) (drop k xs) = drop k xs" using dis by (auto simp: filter_id_conv)
  finally show ?thesis by (simp only: append_take_drop_id append.simps)
qed

text \<open>Dropping the first \<open>k\<close> elements with \<open>P\<close> touches no other element.\<close>

lemma filter_swap: "filter P (filter Q l) = filter Q (filter P l)"
  by (induction l) auto

lemma drop_oldest:
  shows "filter (\<lambda>x. \<not> P x) (filter (\<lambda>x. x \<notin> set (take k (filter P l))) l) = filter (\<lambda>x. \<not> P x) l"
    and "distinct l \<Longrightarrow> filter P (filter (\<lambda>x. x \<notin> set (take k (filter P l))) l) = drop k (filter P l)"
proof -
  have P: "P x" if "x \<in> set (take k (filter P l))" for x
    using in_set_takeD [OF that] by simp
  have "\<forall>x\<in>set (filter (\<lambda>x. \<not> P x) l). x \<notin> set (take k (filter P l))"
  proof
    fix x assume "x \<in> set (filter (\<lambda>x. \<not> P x) l)"
    then have "\<not> P x" by simp
    then show "x \<notin> set (take k (filter P l))" using P by blast
  qed
  then have "filter (\<lambda>x. x \<notin> set (take k (filter P l))) (filter (\<lambda>x. \<not> P x) l) = filter (\<lambda>x. \<not> P x) l"
    by (rule filter_True)
  then show "filter (\<lambda>x. \<not> P x) (filter (\<lambda>x. x \<notin> set (take k (filter P l))) l) = filter (\<lambda>x. \<not> P x) l"
    by (rule trans [OF filter_swap])
  assume "distinct l"
  then have "distinct (filter P l)" by (rule distinct_filter)
  then show "filter P (filter (\<lambda>x. x \<notin> set (take k (filter P l))) l) = drop k (filter P l)"
    by (rule trans [OF filter_swap filter_not_take])
qed

lemma ledger_upd: "m_ledger (r\<lparr>m_seq := a, m_ledger := l\<rparr>) = l"
  by simp

text \<open>What a track keeps: every unresolved entry, and the newest \<open>LEDGER_KEEP\<close> resolved ones.\<close>

lemma track_ledger:
  assumes "ledger_inv r" and "track op detail check now r = (i, r')"
  defines "e \<equiv> \<lparr>e_id = i, e_op = op, e_detail = detail, e_submitted = now, e_settled = None,
               e_timed_out = False, e_refused = False, e_check = check\<rparr>"
  shows "i = m_seq r" and "m_seq r' = m_seq r + 1"
    and "filter (\<lambda>x. \<not> resolved x) (m_ledger r') = filter (\<lambda>x. \<not> resolved x) (m_ledger r @ [e])"
    and "filter resolved (m_ledger r') = (let d = filter resolved (m_ledger r @ [e]) in drop (length d - LEDGER_KEEP) d)"
    and "ledger_inv r'"
proof -
  let ?l = "m_ledger r @ [e]"
  let ?d = "filter resolved ?l"
  let ?x = "take (length ?d - LEDGER_KEEP) ?d"
  have i: "i = m_seq r" using assms(2) by (simp add: track_def Let_def)
  then show "i = m_seq r" .
  have ids: "distinct (map e_id ?l)" using assms(1) by (auto simp: ledger_inv_def e_def i)
  then have d: "distinct ?l" by (simp only: distinct_map)
  have r': "r' = snd (track op detail check now r)" by (simp add: assms(2))
  have "m_ledger r' = fold remove1 ?x ?l"
    unfolding r' track_def Let_def e_def i snd_conv metrics_frame by (rule ledger_upd)
  then have l: "m_ledger r' = filter (\<lambda>x. x \<notin> set ?x) ?l" unfolding fold_remove1_distinct [OF d] .
  show s: "m_seq r' = m_seq r + 1" using assms(2) by (auto simp: track_def Let_def)
  show "filter (\<lambda>x. \<not> resolved x) (m_ledger r') = filter (\<lambda>x. \<not> resolved x) ?l"
    unfolding l by (rule drop_oldest(1))
  show "filter resolved (m_ledger r') = (let d = ?d in drop (length d - LEDGER_KEEP) d)"
    unfolding l Let_def by (rule drop_oldest(2) [OF d])
  have "distinct (map e_id (m_ledger r'))" unfolding l by (rule distinct_map_filter [OF ids])
  moreover have "e' \<in> set (m_ledger r) \<or> e' = e" if "e' \<in> set (m_ledger r')" for e'
    using that unfolding l set_filter by (simp only: set_append) auto
  moreover have "e_id e < m_seq r'" "\<not> truthy (e_settled e)" by (simp_all add: e_def i s truthy_def)
  ultimately show "ledger_inv r'"
    using assms(1) unfolding ledger_inv_def s by (metis Suc_eq_plus1 less_SucI)
qed

lemma set_entry_ids: "(\<And>e. e_id (f e) = e_id e) \<Longrightarrow> map e_id (m_ledger (set_entry i f r)) = map e_id (m_ledger r)"
  by (simp add: set_entry_def)

lemma set_entry_inv:
  assumes "ledger_inv r" and "\<And>e. e_id (f e) = e_id e"
    and "\<And>e. e \<in> set (m_ledger r) \<Longrightarrow> e_id e = i \<Longrightarrow> \<not> (truthy (e_settled (f e)) \<and> e_timed_out (f e))"
  shows "ledger_inv (set_entry i f r)"
proof -
  have "distinct (map e_id (m_ledger (set_entry i f r)))"
    using assms(1) unfolding set_entry_ids [OF assms(2)] ledger_inv_def by blast
  then show ?thesis using assms by (auto simp: ledger_inv_def set_entry_def simp del: map_map)
qed

lemma refused_inv: "ledger_inv r \<Longrightarrow> ledger_inv (refused i r)"
proof -
  assume inv: "ledger_inv r"
  have "ledger_inv (set_entry i (\<lambda>e. e\<lparr>e_refused := True, e_check := None\<rparr>) r)"
    using inv by (intro set_entry_inv) (auto simp: ledger_inv_def)
  then show ?thesis using inv by (auto simp: refused_def ledger_inv_def split: option.split)
qed

lemma watch_entry_other:
  "e' \<in> set (m_ledger (watch_entry call now e r)) \<Longrightarrow> e_id e' \<noteq> e_id e \<Longrightarrow> e' \<in> set (m_ledger r)"
  by (auto simp: watch_entry_def set_entry_def split: sum.splits if_splits)

lemma watch_entry_inv:
  assumes "ledger_inv r" and "\<forall>e'\<in>set (m_ledger r). e_id e' = e_id e \<longrightarrow> \<not> truthy (e_settled e') \<and> \<not> e_timed_out e'"
  shows "ledger_inv (watch_entry call now e r)"
proof -
  have "ledger_inv (set_entry (e_id e) (\<lambda>e. e\<lparr>e_settled := Some now\<rparr>) r)"
    and "ledger_inv (set_entry (e_id e) (\<lambda>e. e\<lparr>e_timed_out := True\<rparr>) r)"
    using assms(2) by (auto intro!: set_entry_inv [OF assms(1)])
  then show ?thesis
    using assms(1) by (auto simp: watch_entry_def ledger_inv_def split: sum.split)
qed

lemma fold_watch_inv:
  assumes "ledger_inv r" and "distinct (map e_id es)"
    and "\<forall>e\<in>set es. \<forall>e'\<in>set (m_ledger r). e_id e' = e_id e \<longrightarrow> \<not> truthy (e_settled e') \<and> \<not> e_timed_out e'"
  shows "ledger_inv (fold (watch_entry call now) es r)"
  using assms
proof (induction es arbitrary: r)
  case Nil
  then show ?case by simp
next
  case (Cons e es)
  have "ledger_inv (watch_entry call now e r)" using Cons.prems(1,3) by (intro watch_entry_inv) auto
  moreover have "\<forall>e1\<in>set es. \<forall>e'\<in>set (m_ledger (watch_entry call now e r)). e_id e' = e_id e1 \<longrightarrow>
      \<not> truthy (e_settled e') \<and> \<not> e_timed_out e'"
    using Cons.prems(2,3) watch_entry_other by (metis distinct.simps(2) image_eqI list.set_intros(2) list.simps(9) set_map)
  ultimately show ?case using Cons.IH Cons.prems(2) by simp
qed

lemma watch_inv: "ledger_inv r \<Longrightarrow> ledger_inv (watch call now r)"
  unfolding watch_def
proof (rule fold_watch_inv)
  assume inv: "ledger_inv r"
  then have ids: "distinct (map e_id (m_ledger r))" by (simp add: ledger_inv_def)
  then show "distinct (map e_id (filter is_open_entry (m_ledger r)))" by (simp add: distinct_map_filter)
  show "\<forall>e\<in>set (filter is_open_entry (m_ledger r)). \<forall>e'\<in>set (m_ledger r). e_id e' = e_id e \<longrightarrow>
      \<not> truthy (e_settled e') \<and> \<not> e_timed_out e'"
    using ids by (auto simp: distinct_map is_open_entry_def dest!: inj_onD)
qed simp_all

text \<open>The ledger's life: operations are tracked, refused and watched in any order.\<close>

inductive ledger_reach :: "'c registry \<Rightarrow> bool" where
  start: "m_ledger r = [] \<Longrightarrow> ledger_reach r"
| track: "ledger_reach r \<Longrightarrow> ledger_reach (snd (track op detail check now r))"
| refused: "ledger_reach r \<Longrightarrow> ledger_reach (refused i r)"
| watch: "ledger_reach r \<Longrightarrow> ledger_reach (watch call now r)"

lemma ledger_reach_inv: "ledger_reach r \<Longrightarrow> ledger_inv r"
proof (induction rule: ledger_reach.induct)
  case (start r)
  then show ?case by (simp add: ledger_inv_def)
next
  case (track r op detail check now)
  then show ?case by (cases "track op detail check now r") (auto dest: track_ledger(5))
next
  case (refused r i)
  then show ?case by (simp add: refused_inv)
next
  case (watch r call now)
  then show ?case by (simp add: watch_inv)
qed

section \<open>Properties\<close>

text \<open>C36: after any sequence of observations of a fresh series, each bucket counts exactly the values
  not above its bound, the sum and the count are those of the values, and the buckets rise to the
  count.\<close>

theorem observe_exact:
  assumes "dget (m_hist r) (name, labels_key ls) = None"
    and "h = dget_or (m_hist (fold (observe name ls) vs r)) (name, labels_key ls) empty_hist"
  shows "(\<forall>i < length BUCKETS. h_buckets h ! i = length (filter (\<lambda>v. v \<le> BUCKETS ! i) vs)) \<and>
    length (h_buckets h) = length BUCKETS \<and> h_sum h = sum_list vs \<and> h_count h = length vs \<and>
    sorted (h_buckets h @ [h_count h])"
proof -
  have h: "h = fold hist_add vs empty_hist"
    unfolding assms(2) fold_observe using assms(1) by (simp add: dget_or_def)
  note f = fold_hist_add [of empty_hist vs, folded h]
  have e: "\<forall>i < length BUCKETS. h_buckets h ! i = length (filter (\<lambda>v. v \<le> BUCKETS ! i) vs)"
    "length (h_buckets h) = length BUCKETS" "h_sum h = sum_list vs" "h_count h = length vs"
    using f by (simp_all add: empty_hist_def)
  have mono: "length (filter (\<lambda>v. v \<le> a) vs) \<le> length (filter (\<lambda>v. v \<le> b) vs)" if "a \<le> b" for a b :: rat
    using that by (induction vs) auto
  have "sorted (h_buckets h)"
    unfolding sorted_iff_nth_mono using e(1,2) BUCKETS_sorted by (auto simp: sorted_iff_nth_mono intro!: mono)
  moreover have "\<forall>x\<in>set (h_buckets h). x \<le> h_count h"
    using e(1,2,4) by (auto simp: in_set_conv_nth)
  ultimately show ?thesis using e by (simp add: sorted_append)
qed

definition fresh_registry :: "'c registry" where
  "fresh_registry = \<lparr>m_counters = [], m_gauge_cbs = [], m_help = [], m_hist = [], m_gauges = [],
     m_ledger = [], m_seq = 0\<rparr>"

theorem observe_exact_witness:
  "h_count (dget_or (m_hist (fold (observe ''x'' []) [5, 700, 3] (fresh_registry :: nat registry))) (''x'', labels_key []) empty_hist) = 3"
proof -
  have "dget (m_hist (fresh_registry :: nat registry)) (''x'', labels_key []) = None"
    by (simp add: fresh_registry_def)
  from observe_exact [OF this refl, of "[5, 700, 3]", THEN conjunct2, THEN conjunct2, THEN conjunct2, THEN conjunct1]
  show ?thesis by simp
qed



end
