(* ===== verification/Telemetry.thy ===== *)
theory Telemetry
  imports Metrics
begin

text \<open>
  \<^verbatim>\<open>src/offchain/order_telemetry.py\<close>: the lifecycle record of every live order, the service-level tallies
  and the event log. The log is the list of lines written (when the file can be written); a line's
  extra fields are options. Each call gets the clock readings it makes, in order.
\<close>

section \<open>State\<close>

type_synonym order_key = "int \<times> int \<times> int"

record event =
  ev_ts :: time
  ev_event :: string
  ev_key :: order_key
  ev_marketable :: bool
  ev_sealed :: "bool option"
  ev_retries :: "nat option"
  ev_crossed :: "bool option"
  ev_filled :: "int option"
  ev_expires_at :: "time option"
  ev_outcome :: "string option"
  ev_latency :: "time option"
  ev_reason :: "string option"
  ev_clearing :: "int option"
  ev_terms :: "(int \<times> int \<times> int) option"

record live =
  l_terms :: "int \<times> int \<times> int"
  l_sealed :: bool
  l_marketable :: bool
  l_placed_at :: time
  l_phase :: string
  l_retries :: nat
  l_crossed :: bool
  l_rounded_at :: "time option"
  l_last :: "time option"
  l_expires_at :: "time option"

record 'c telemetry =
  t_orders :: "(order_key, live) dict"
  t_cleared :: nat
  t_missed :: nat
  t_writable :: bool
  t_log :: "event list"
  t_metrics :: "'c registry"

definition TERMINAL :: "string list" where
  "TERMINAL = [''filled'', ''partial-cancelled'', ''cancelled'', ''expired'', ''rejected'', ''lost'']"

definition CLEARED :: "string list" where
  "CLEARED = [''filled'']"

definition OPEN_GRACE :: time where "OPEN_GRACE = 600"

definition mk_event :: "time \<Rightarrow> string \<Rightarrow> order_key \<Rightarrow> bool \<Rightarrow> event" where
  "mk_event ts name key marketable = \<lparr>ev_ts = ts, ev_event = name, ev_key = key, ev_marketable = marketable,
     ev_sealed = None, ev_retries = None, ev_crossed = None, ev_filled = None, ev_expires_at = None,
     ev_outcome = None, ev_latency = None, ev_reason = None, ev_clearing = None, ev_terms = None\<rparr>"

definition metric :: "('c registry \<Rightarrow> 'c registry) \<Rightarrow> 'c telemetry \<Rightarrow> 'c telemetry" where
  "metric f t = t\<lparr>t_metrics := f (t_metrics t)\<rparr>"

text \<open>\<^verbatim>\<open>_log\<close>: the record of the order remembers its last event and a truthy expiry; the line is
  written unless the file refuses it.\<close>

definition stamp :: "event \<Rightarrow> live \<Rightarrow> live" where
  "stamp e rec = rec\<lparr>l_last := Some (ev_ts e),
     l_expires_at := (if truthy (ev_expires_at e) then ev_expires_at e else l_expires_at rec)\<rparr>"

definition write_line :: "event \<Rightarrow> 'c telemetry \<Rightarrow> 'c telemetry" where
  "write_line e t = (if t_writable t then t\<lparr>t_log := t_log t @ [e]\<rparr> else t)"

definition log_live :: "order_key \<Rightarrow> live \<Rightarrow> event \<Rightarrow> 'c telemetry \<Rightarrow> 'c telemetry" where
  "log_live key rec e t = write_line e (t\<lparr>t_orders := dset key (stamp e rec) (t_orders t)\<rparr>)"

section \<open>Transitions\<close>

definition bool_label :: "bool \<Rightarrow> string" where
  "bool_label b = (if b then ''true'' else ''false'')"

definition placed :: "clock \<Rightarrow> order_key \<Rightarrow> int \<Rightarrow> int \<Rightarrow> int \<Rightarrow> bool \<Rightarrow> bool \<Rightarrow> 'c telemetry \<Rightarrow> 'c telemetry" where
  "placed clk key side price qty sealed marketable t =
     (let rec = \<lparr>l_terms = (side, price, qty), l_sealed = sealed, l_marketable = marketable,
                 l_placed_at = clk 0, l_phase = ''placed'', l_retries = 0, l_crossed = False,
                 l_rounded_at = None, l_last = None, l_expires_at = None\<rparr>;
          t1 = metric (inc ''jamswap_order_placed_total'' [(''marketable'', bool_label marketable)] 1)
                 (t\<lparr>t_orders := dset key rec (t_orders t)\<rparr>);
          e = mk_event (round_to 3 (clk 1)) ''placed'' key marketable
      in log_live key rec (e\<lparr>ev_terms := Some (side, price, qty), ev_sealed := Some sealed\<rparr>) t1)"

text \<open>The guard of every later transition, \<^verbatim>\<open>rec and rec["phase"] not in TERMINAL\<close>.\<close>

definition advance :: "(live \<Rightarrow> live) \<Rightarrow> live \<Rightarrow> live" where
  "advance f rec = (if l_phase rec \<notin> set TERMINAL then f rec else rec)"

definition rounded :: "clock \<Rightarrow> order_key \<Rightarrow> 'c telemetry \<Rightarrow> 'c telemetry" where
  "rounded clk key t = (case dget (t_orders t) key of None \<Rightarrow> t | Some rec0 \<Rightarrow>
     let rec = advance (\<lambda>r. r\<lparr>l_phase := ''rounded'',
                 l_rounded_at := (case l_rounded_at r of None \<Rightarrow> Some (clk 0) | Some x \<Rightarrow> Some x)\<rparr>) rec0
     in log_live key rec (mk_event (round_to 3 (clk 1)) ''rounded'' key (l_marketable rec)) t)"

definition reverted :: "clock \<Rightarrow> order_key \<Rightarrow> 'c telemetry \<Rightarrow> 'c telemetry" where
  "reverted clk key t = (case dget (t_orders t) key of None \<Rightarrow> t | Some rec0 \<Rightarrow>
     let rec = advance (\<lambda>r. r\<lparr>l_retries := l_retries r + 1, l_phase := ''rounded''\<rparr>) rec0;
         e = mk_event (round_to 3 (clk 0)) ''reverted'' key (l_marketable rec)
     in log_live key rec (e\<lparr>ev_retries := Some (l_retries rec)\<rparr>)
          (metric (inc ''jamswap_order_retries_total'' [(''kind'', ''reverted'')] 1) t))"

definition requeued :: "clock \<Rightarrow> order_key \<Rightarrow> 'c telemetry \<Rightarrow> 'c telemetry" where
  "requeued clk key t = (case dget (t_orders t) key of None \<Rightarrow> t | Some rec0 \<Rightarrow>
     let rec = advance (\<lambda>r. r\<lparr>l_retries := l_retries r + 1, l_phase := ''placed''\<rparr>) rec0;
         e = mk_event (round_to 3 (clk 0)) ''requeued'' key (l_marketable rec)
     in log_live key rec (e\<lparr>ev_retries := Some (l_retries rec)\<rparr>)
          (metric (inc ''jamswap_order_retries_total'' [(''kind'', ''requeued'')] 1) t))"

definition deferred :: "clock \<Rightarrow> order_key \<Rightarrow> string \<Rightarrow> 'c telemetry \<Rightarrow> 'c telemetry" where
  "deferred clk key reason t = (case dget (t_orders t) key of None \<Rightarrow> t | Some rec0 \<Rightarrow>
     let rec = advance (\<lambda>r. r\<lparr>l_phase := ''deferred''\<rparr>) rec0;
         e = mk_event (round_to 3 (clk 0)) ''deferred'' key (l_marketable rec)
     in log_live key rec (e\<lparr>ev_reason := Some reason\<rparr>) t)"

definition rested :: "clock \<Rightarrow> order_key \<Rightarrow> int \<Rightarrow> bool \<Rightarrow> int \<Rightarrow> time option \<Rightarrow> 'c telemetry \<Rightarrow> 'c telemetry" where
  "rested clk key clearing crossed filled expires_at t = (case dget (t_orders t) key of None \<Rightarrow> t | Some rec0 \<Rightarrow>
     let rec = advance (\<lambda>r. r\<lparr>l_phase := ''rested'', l_crossed := l_crossed r \<or> crossed, l_marketable := False\<rparr>) rec0;
         e = mk_event (round_to 3 (clk 0)) ''rested'' key (l_marketable rec)
     in log_live key rec (e\<lparr>ev_clearing := Some clearing, ev_crossed := Some crossed, ev_filled := Some filled,
          ev_expires_at := (if truthy expires_at then Some (round_to 3 (the expires_at)) else None)\<rparr>) t)"

definition slo_of :: "nat \<Rightarrow> nat \<Rightarrow> rat" where
  "slo_of c mi = (if c + mi = 0 then 1 else of_nat c / of_nat (c + mi))"

definition synthetic :: "time \<Rightarrow> live" where
  "synthetic now = \<lparr>l_terms = (0, 0, 0), l_sealed = False, l_marketable = False, l_placed_at = now, l_phase = [],
     l_retries = 0, l_crossed = False, l_rounded_at = None, l_last = None, l_expires_at = None\<rparr>"

definition terminal :: "clock \<Rightarrow> order_key \<Rightarrow> string \<Rightarrow> int \<Rightarrow> string option \<Rightarrow> 'c telemetry \<Rightarrow> 'c telemetry" where
  "terminal clk key outcome filled reason t =
     (let rec = (case dget (t_orders t) key of Some r \<Rightarrow> r | None \<Rightarrow> synthetic (clk 0));
          latency = clk 1 - l_placed_at rec;
          c = t_cleared t + (if l_marketable rec \<and> outcome \<in> set CLEARED then 1 else 0);
          mi = t_missed t + (if l_marketable rec \<and> outcome \<notin> set CLEARED \<and>
                 outcome \<in> set [''expired'', ''lost'', ''partial-cancelled'', ''rejected''] then 1 else 0);
          t1 = t\<lparr>t_orders := dpop key (t_orders t), t_cleared := c, t_missed := mi\<rparr>;
          t2 = metric (inc ''jamswap_order_terminal_total''
                 [(''outcome'', outcome), (''marketable'', bool_label (l_marketable rec))] 1) t1;
          t3 = (if outcome \<in> set CLEARED then metric (observe ''jamswap_order_clear_latency_seconds'' [] latency) t2 else t2);
          t4 = metric (set_gauge ''jamswap_order_clearing_slo'' [] (slo_of c mi)) t3;
          e = mk_event (round_to 3 (clk 2)) ''terminal'' key (l_marketable rec)
      in write_line (e\<lparr>ev_outcome := Some outcome, ev_filled := Some filled, ev_retries := Some (l_retries rec),
           ev_latency := Some (round_to 2 latency),
           ev_reason := (if reason = Some [] then None else reason)\<rparr>) t4)"

definition is_open :: "order_key \<Rightarrow> 'c telemetry \<Rightarrow> bool" where
  "is_open key t \<longleftrightarrow> dget (t_orders t) key \<noteq> None"

section \<open>The live gauges\<close>

definition lateness :: "time \<Rightarrow> live \<Rightarrow> time" where
  "lateness now rec =
     (if l_phase rec = ''rested'' then (if truthy (l_expires_at rec) then now - the (l_expires_at rec) else 0)
      else now - (case l_last rec of Some x \<Rightarrow> x | None \<Rightarrow> l_placed_at rec))"

definition stale :: "time \<Rightarrow> live \<Rightarrow> bool" where
  "stale now rec \<longleftrightarrow> OPEN_GRACE < lateness now rec"

record slo_report =
  sr_cleared :: nat
  sr_missed :: nat
  sr_open :: nat
  sr_phases :: "(string, nat) dict"
  sr_stale :: nat
  sr_slo :: rat
  sr_marketable_terminal :: nat

definition snapshot :: "time \<Rightarrow> 'c telemetry \<Rightarrow> slo_report \<times> 'c telemetry" where
  "snapshot now t =
     (let recs = map snd (t_orders t);
          phases = tally (map l_phase recs);
          late = tally (map l_phase (filter (stale now) recs));
          oldest = foldl max 0 (map (lateness now) recs);
          gauges = (\<lambda>ph r. set_gauge ''jamswap_order_open_stale'' [(''phase'', ph)] (of_nat (dget_or late ph 0))
                     (set_gauge ''jamswap_order_open'' [(''phase'', ph)] (of_nat (dget_or phases ph 0)) r));
          t' = metric (\<lambda>r. set_gauge ''jamswap_order_open_oldest_seconds'' [] oldest
                 (fold gauges [''placed'', ''rounded'', ''deferred'', ''rested''] r)) t
      in (\<lparr>sr_cleared = t_cleared t, sr_missed = t_missed t, sr_open = length (t_orders t),
           sr_phases = phases, sr_stale = sum_list (map snd late),
           sr_slo = slo_of (t_cleared t) (t_missed t), sr_marketable_terminal = t_cleared t + t_missed t\<rparr>, t'))"

section \<open>The log and the live records agree\<close>

definition evs :: "order_key \<Rightarrow> event list \<Rightarrow> event list" where
  "evs k lg = filter (\<lambda>e. ev_key e = k) lg"

definition live_inv :: "event list \<Rightarrow> live \<Rightarrow> bool" where
  "live_inv es rec \<longleftrightarrow> es \<noteq> [] \<and> (\<forall>e\<in>set es. ev_event e \<noteq> ''terminal'') \<and> l_last rec = Some (ev_ts (last es)) \<and>
     l_phase rec \<notin> set TERMINAL \<and> (l_phase rec = ''rested'') = (ev_event (last es) = ''rested'') \<and>
     (l_phase rec = ''rested'' \<longrightarrow> truthy (ev_expires_at (last es)) \<and> l_expires_at rec = ev_expires_at (last es))"

definition key_inv :: "event list \<Rightarrow> live option \<Rightarrow> bool" where
  "key_inv es v = (case v of Some rec \<Rightarrow> live_inv es rec | None \<Rightarrow> es = [] \<or> (\<exists>e\<in>set es. ev_event e = ''terminal''))"

definition tel_inv :: "'c telemetry \<Rightarrow> time \<Rightarrow> bool" where
  "tel_inv t now \<longleftrightarrow> t_writable t \<and> wf_dict (t_orders t) \<and> sorted (map ev_ts (t_log t)) \<and>
     (\<forall>e\<in>set (t_log t). ev_ts e \<le> round_to 3 now \<and> (ev_event e = ''terminal'' \<longrightarrow> ev_outcome e \<noteq> None)) \<and>
     (\<forall>k. key_inv (evs k (t_log t)) (dget (t_orders t) k))"

lemma evs_append [simp]: "evs k (lg @ [e]) = (if ev_key e = k then evs k lg @ [e] else evs k lg)"
  by (simp add: evs_def)

lemma metric_frame [simp]:
  "t_orders (metric f t) = t_orders t" "t_log (metric f t) = t_log t" "t_writable (metric f t) = t_writable t"
  by (simp_all add: metric_def)

lemma mk_event_sel [simp]:
  "ev_ts (mk_event ts n k b) = ts" "ev_event (mk_event ts n k b) = n" "ev_key (mk_event ts n k b) = k"
  "ev_expires_at (mk_event ts n k b) = None"
  by (simp_all add: mk_event_def)

lemma tel_inv_key: "tel_inv t now \<Longrightarrow> key_inv (evs k (t_log t)) (dget (t_orders t) k)"
  by (simp add: tel_inv_def del: split_paired_All)

lemma tel_invD:
  assumes "tel_inv t now"
  shows "t_writable t" and "wf_dict (t_orders t)"
    and "dget (t_orders t) k = Some rec \<Longrightarrow> live_inv (evs k (t_log t)) rec"
    and "dget (t_orders t) k = None \<Longrightarrow> evs k (t_log t) = [] \<or> (\<exists>e\<in>set (evs k (t_log t)). ev_event e = ''terminal'')"
proof -
  note k = tel_inv_key [OF assms, of k]
  from k show "dget (t_orders t) k = Some rec \<Longrightarrow> live_inv (evs k (t_log t)) rec"
    and "dget (t_orders t) k = None \<Longrightarrow> evs k (t_log t) = [] \<or> (\<exists>e\<in>set (evs k (t_log t)). ev_event e = ''terminal'')"
    by (simp_all add: key_inv_def)
qed (use assms in \<open>simp_all add: tel_inv_def\<close>)

lemma tel_inv_time:
  assumes "tel_inv t now" and "now \<le> c"
  shows "\<forall>e\<in>set (t_log t). ev_ts e \<le> round_to 3 c"
  using assms round_to_mono [OF assms(2), of 3] by (force simp: tel_inv_def)

text \<open>Logging an event for an order keeps the invariant.\<close>

lemma log_live_inv:
  assumes inv: "tel_inv t now" and "now \<le> c" and "ev_ts e = round_to 3 c" and "ev_key e = k"
    and "ev_event e \<noteq> ''terminal''" and "l_phase rec \<notin> set TERMINAL"
    and "(l_phase rec = ''rested'') = (ev_event e = ''rested'')"
    and "l_phase rec = ''rested'' \<Longrightarrow> truthy (ev_expires_at e)"
    and "\<forall>e\<in>set (evs k (t_log t)). ev_event e \<noteq> ''terminal''"
    and t': "t_log t' = t_log t" "t_writable t' = t_writable t" "wf_dict (t_orders t')"
      "\<And>k'. k' \<noteq> k \<Longrightarrow> dget (t_orders t') k' = dget (t_orders t) k'"
  shows "tel_inv (log_live k rec e t') c"
proof -
  have w: "t_writable t'" using tel_invD(1) [OF inv] t'(2) by simp
  have log: "t_log (log_live k rec e t') = t_log t @ [e]" using w t'(1) by (simp add: log_live_def write_line_def)
  have ord: "t_orders (log_live k rec e t') = dset k (stamp e rec) (t_orders t')"
    by (simp add: log_live_def write_line_def)
  have ts: "\<forall>e'\<in>set (t_log t). ev_ts e' \<le> ev_ts e" using tel_inv_time [OF inv assms(2)] assms(3) by simp
  have "live_inv (evs k (t_log t @ [e])) (stamp e rec)"
    using assms by (auto simp: live_inv_def stamp_def)
  then have "key_inv (evs k' (t_log t @ [e])) (dget (dset k (stamp e rec) (t_orders t')) k')" for k'
    using tel_inv_key [OF inv, of k'] assms(4) t'(4) [of k'] by (cases "k' = k") (simp_all add: key_inv_def)
  moreover have "t_writable (log_live k rec e t')" using w by (simp add: log_live_def write_line_def)
  ultimately show ?thesis
    using inv ts assms(3,5) t'(3) tel_inv_time [OF inv assms(2)] unfolding tel_inv_def log ord
    by (simp add: sorted_append del: split_paired_All)
qed

lemma truthy_round: "truthy (Some (round_to k x)) \<Longrightarrow> truthy (Some x)"
  using round_to_exact [of 0 k 0] by (auto simp: truthy_def)

lemma advance_phase: "l_phase rec \<notin> set TERMINAL \<Longrightarrow> advance f rec = f rec"
  by (simp add: advance_def)

text \<open>Runs of the telemetry: the clock never goes back, an order is placed under a key the log does
  not know (order ids are never reused), and a rest carries its expiry.\<close>

inductive tel_reach :: "'c telemetry \<Rightarrow> time \<Rightarrow> bool" where
  start: "t_orders t = [] \<Longrightarrow> t_log t = [] \<Longrightarrow> t_writable t \<Longrightarrow> tel_reach t now"
| placed: "tel_reach t now \<Longrightarrow> now \<le> clk 1 \<Longrightarrow> evs k (t_log t) = [] \<Longrightarrow>
    tel_reach (placed clk k side price qty sealed marketable t) (clk 1)"
| rounded: "tel_reach t now \<Longrightarrow> now \<le> clk 1 \<Longrightarrow> tel_reach (rounded clk k t) (clk 1)"
| reverted: "tel_reach t now \<Longrightarrow> now \<le> clk 0 \<Longrightarrow> tel_reach (reverted clk k t) (clk 0)"
| requeued: "tel_reach t now \<Longrightarrow> now \<le> clk 0 \<Longrightarrow> tel_reach (requeued clk k t) (clk 0)"
| deferred: "tel_reach t now \<Longrightarrow> now \<le> clk 0 \<Longrightarrow> tel_reach (deferred clk k reason t) (clk 0)"
| rested: "tel_reach t now \<Longrightarrow> now \<le> clk 0 \<Longrightarrow> truthy (Some (round_to 3 x)) \<Longrightarrow>
    tel_reach (rested clk k price crossed filled (Some x) t) (clk 0)"
| terminal: "tel_reach t now \<Longrightarrow> now \<le> clk 2 \<Longrightarrow> tel_reach (terminal clk k outcome filled reason t) (clk 2)"

lemma tel_inv_later: "tel_inv t now \<Longrightarrow> now \<le> c \<Longrightarrow> tel_inv t c"
  using tel_inv_time [of t now c] by (simp add: tel_inv_def)

text \<open>Every transition of a known order is of this shape.\<close>

lemma transition_inv:
  assumes inv: "tel_inv t now" and "now \<le> c"
    and step: "t' = (case dget (t_orders t) k of None \<Rightarrow> t | Some rec0 \<Rightarrow> log_live k (advance f rec0) (g (advance f rec0)) (h t))"
    and g: "\<And>r. ev_ts (g r) = round_to 3 c" "\<And>r. ev_key (g r) = k" "\<And>r. ev_event (g r) = n" "n \<noteq> ''terminal''"
    and f: "\<And>r. l_phase (f r) = p" "p \<notin> set TERMINAL" "(p = ''rested'') = (n = ''rested'')"
      "p = ''rested'' \<Longrightarrow> \<forall>r. truthy (ev_expires_at (g r))"
    and h: "t_orders (h t) = t_orders t" "t_log (h t) = t_log t" "t_writable (h t) = t_writable t"
  shows "tel_inv t' c"
proof (cases "dget (t_orders t) k")
  case None
  then show ?thesis using step tel_inv_later [OF assms(1,2)] by simp
next
  case (Some rec)
  note l = tel_invD(3) [OF inv Some]
  then have a: "advance f rec = f rec" by (simp add: live_inv_def advance_def)
  have "tel_inv (log_live k (f rec) (g (f rec)) (h t)) c"
    using l f g by (intro log_live_inv [OF inv assms(2)]) (auto simp: live_inv_def h tel_invD(2) [OF inv])
  then show ?thesis using step Some a by simp
qed

lemma placed_inv:
  assumes inv: "tel_inv t now" and "now \<le> clk 1" and fresh: "evs k (t_log t) = []"
  shows "tel_inv (placed clk k side price qty sealed marketable t) (clk 1)"
  unfolding placed_def Let_def
  by (rule log_live_inv [OF assms(1,2)])
    (use fresh tel_invD(2) [OF inv] in \<open>simp_all add: TERMINAL_def\<close>)

lemma terminal_inv:
  assumes inv: "tel_inv t now" and "now \<le> clk 2"
  shows "tel_inv (terminal clk k outcome filled reason t) (clk 2)"
proof -
  let ?t = "terminal clk k outcome filled reason t"
  have w: "t_writable t" by (rule tel_invD(1) [OF inv])
  obtain e where e: "t_log ?t = t_log t @ [e]" "ev_event e = ''terminal''" "ev_key e = k" "ev_ts e = round_to 3 (clk 2)"
      and oc: "ev_outcome e \<noteq> None" and o': "t_orders ?t = dpop k (t_orders t)" "t_writable ?t"
    using w by (simp add: terminal_def Let_def write_line_def)
  have "\<forall>e'\<in>set (t_log t). ev_ts e' \<le> ev_ts e" using tel_inv_time [OF assms] e(4) by simp
  moreover have "key_inv (evs k' (t_log ?t)) (dget (t_orders ?t) k')" for k'
    using tel_inv_key [OF inv, of k'] unfolding e(1) o'(1) by (cases "k' = k") (simp_all add: key_inv_def e)
  ultimately show ?thesis
    using inv e oc o' tel_inv_time [OF assms] unfolding tel_inv_def by (simp add: sorted_append del: split_paired_All)
qed

lemma tel_reach_inv: "tel_reach t now \<Longrightarrow> tel_inv t now"
proof (induction rule: tel_reach.induct)
  case (start t now)
  then show ?case by (simp add: tel_inv_def evs_def key_inv_def)
next
  case placed
  then show ?case by (intro placed_inv)
next
  case (rounded t now clk k)
  show ?case
    by (rule transition_inv [OF rounded.IH rounded.hyps(2), where h = "\<lambda>t. t" and k = k and n = "''rounded''" and p = "''rounded''"
          and f = "\<lambda>r. r\<lparr>l_phase := ''rounded'',
                 l_rounded_at := (case l_rounded_at r of None \<Rightarrow> Some (clk 0) | Some x \<Rightarrow> Some x)\<rparr>"
          and g = "\<lambda>r. mk_event (round_to 3 (clk 1)) ''rounded'' k (l_marketable r)"])
      (auto simp: rounded_def Let_def TERMINAL_def split: option.splits)
next
  case (reverted t now clk k)
  show ?case
    by (rule transition_inv [OF reverted.IH reverted.hyps(2), where k = k and n = "''reverted''" and p = "''rounded''"
          and h = "metric (inc ''jamswap_order_retries_total'' [(''kind'', ''reverted'')] 1)"
          and f = "\<lambda>r. r\<lparr>l_retries := l_retries r + 1, l_phase := ''rounded''\<rparr>"
          and g = "\<lambda>r. (mk_event (round_to 3 (clk 0)) ''reverted'' k (l_marketable r))\<lparr>ev_retries := Some (l_retries r)\<rparr>"])
      (auto simp: reverted_def Let_def TERMINAL_def split: option.splits)
next
  case (requeued t now clk k)
  show ?case
    by (rule transition_inv [OF requeued.IH requeued.hyps(2), where k = k and n = "''requeued''" and p = "''placed''"
          and h = "metric (inc ''jamswap_order_retries_total'' [(''kind'', ''requeued'')] 1)"
          and f = "\<lambda>r. r\<lparr>l_retries := l_retries r + 1, l_phase := ''placed''\<rparr>"
          and g = "\<lambda>r. (mk_event (round_to 3 (clk 0)) ''requeued'' k (l_marketable r))\<lparr>ev_retries := Some (l_retries r)\<rparr>"])
      (auto simp: requeued_def Let_def TERMINAL_def split: option.splits)
next
  case (deferred t now clk k reason)
  show ?case
    by (rule transition_inv [OF deferred.IH deferred.hyps(2), where h = "\<lambda>t. t" and k = k and n = "''deferred''"
          and p = "''deferred''" and f = "\<lambda>r. r\<lparr>l_phase := ''deferred''\<rparr>"
          and g = "\<lambda>r. (mk_event (round_to 3 (clk 0)) ''deferred'' k (l_marketable r))\<lparr>ev_reason := Some reason\<rparr>"])
      (auto simp: deferred_def Let_def TERMINAL_def split: option.splits)
next
  case (rested t now clk x k price crossed filled)
  show ?case
    by (rule transition_inv [OF rested.IH rested.hyps(2), where h = "\<lambda>t. t" and k = k and n = "''rested''" and p = "''rested''"
          and f = "\<lambda>r. r\<lparr>l_phase := ''rested'', l_crossed := l_crossed r \<or> crossed, l_marketable := False\<rparr>"
          and g = "\<lambda>r. (mk_event (round_to 3 (clk 0)) ''rested'' k (l_marketable r))\<lparr>ev_clearing := Some price,
            ev_crossed := Some crossed, ev_filled := Some filled,
            ev_expires_at := (if truthy (Some x) then Some (round_to 3 x) else None)\<rparr>"])
      (use rested.hyps(3) truthy_round [OF rested.hyps(3)] in \<open>auto simp: rested_def Let_def TERMINAL_def split: option.splits\<close>)
next
  case terminal
  then show ?case by (intro terminal_inv)
qed

lemma snapshot_stale: "sr_stale (fst (snapshot now t)) = length (filter (stale now) (map snd (t_orders t)))"
  by (simp add: snapshot_def Let_def)

end
