(* ===== verification/Soak_Verdict.thy ===== *)
theory Soak_Verdict
  imports Telemetry
begin

text \<open>
  \<^verbatim>\<open>src/offchain/soak_verdict.py\<close>: the verdict over the event log. \<^verbatim>\<open>load\<close> gets the JSON decoder as an
  argument (a line decodes to an event or is skipped). The chain section takes the verdict of the
  chain watcher and the parity result as the values read from their files.
\<close>

section \<open>The judge\<close>

definition MISSED :: "string list" where
  "MISSED = [''expired'', ''lost'', ''cancelled'', ''partial-cancelled'', ''rejected'']"

type_synonym histories = "(order_key, event list) dict"

definition strip_line :: "string \<Rightarrow> string" where
  "strip_line l = (let ws = (\<lambda>c. c \<in> {CHR '' '', CHR 0x09, CHR 0x0A, CHR 0x0B, CHR 0x0C, CHR 0x0D, CHR 0x1C, CHR 0x1D, CHR 0x1E, CHR 0x1F})
     in rev (dropWhile ws (rev (dropWhile ws l))))"

definition add_event :: "event \<Rightarrow> histories \<Rightarrow> histories" where
  "add_event e orders = dset (ev_key e) (dget_or orders (ev_key e) [] @ [e]) orders"

definition load_line :: "(string \<Rightarrow> event res) \<Rightarrow> string \<Rightarrow> histories \<Rightarrow> histories" where
  "load_line decode line orders =
     (let l = strip_line line in
      if l = [] then orders else case decode l of Inl _ \<Rightarrow> orders | Inr e \<Rightarrow> add_event e orders)"

definition load :: "(string \<Rightarrow> event res) \<Rightarrow> string list \<Rightarrow> histories" where
  "load decode lines = fold (load_line decode) lines []"

record verdict =
  v_marketable :: bool
  v_crossed :: bool
  v_sealed :: bool
  v_deferrals :: nat
  v_retries :: nat
  v_reverts :: nat
  v_placed :: bool
  v_terminal :: "string option"
  v_latency :: "time option"
  v_filled :: int
  v_expires_at :: "time option"
  v_class :: string

definition is_event :: "string \<Rightarrow> event \<Rightarrow> bool" where
  "is_event name e \<longleftrightarrow> ev_event e = name"

definition last_opt :: "'a list \<Rightarrow> 'a option" where
  "last_opt xs = (if xs = [] then None else Some (last xs))"

definition order_class :: "event list \<Rightarrow> bool \<Rightarrow> string option \<Rightarrow> string" where
  "order_class events marketable outcome = (case outcome of
       None \<Rightarrow> if is_event ''rested'' (last events) then ''resting'' else ''open''
     | Some oc \<Rightarrow> if oc \<in> set CLEARED then ''cleared''
         else if oc \<in> set MISSED then (if marketable then ''missed'' else ''expired-nonmarketable'')
         else ''other'')"

text \<open>\<open>events\<close> is never empty (\<^verbatim>\<open>load\<close> makes no empty history); a terminal event without an outcome
  raises KeyError.\<close>

definition judge :: "event list \<Rightarrow> verdict res" where
  "judge events =
     (let placed = find (is_event ''placed'') events;
          term = find (is_event ''terminal'') events;
          rests = filter (is_event ''rested'') events;
          marketable = (if rests \<noteq> [] then False else list_ex ev_marketable events);
          build = (\<lambda>outcome. \<lparr>v_marketable = marketable, v_crossed = list_ex (\<lambda>e. ev_crossed e = Some True) rests,
             v_sealed = (case placed of None \<Rightarrow> False | Some e \<Rightarrow> ev_sealed e = Some True),
             v_deferrals = length (filter (is_event ''deferred'') events),
             v_retries = foldl max 0 (map (\<lambda>e. case ev_retries e of None \<Rightarrow> 0 | Some n \<Rightarrow> n) events),
             v_reverts = length (filter (is_event ''reverted'') events),
             v_placed = (placed \<noteq> None), v_terminal = outcome,
             v_latency = (case term of None \<Rightarrow> None | Some e \<Rightarrow> ev_latency e),
             v_filled = (case term of None \<Rightarrow> 0 | Some e \<Rightarrow> (case ev_filled e of None \<Rightarrow> 0 | Some f \<Rightarrow> f)),
             v_expires_at = (case last_opt rests of None \<Rightarrow> None | Some e \<Rightarrow> ev_expires_at e),
             v_class = order_class events marketable outcome\<rparr>)
      in if events = [] then Inl IndexError
         else case term of None \<Rightarrow> Inr (build None)
           | Some e \<Rightarrow> (case ev_outcome e of None \<Rightarrow> Inl KeyError | Some oc \<Rightarrow> Inr (build (Some oc))))"

section \<open>The score\<close>

definition last_ts :: "event list \<Rightarrow> time" where
  "last_ts events = foldl max (ev_ts (hd events)) (map ev_ts events)"

text \<open>Why an order counts as stuck open: how long it has been silent, or past its own expiry.\<close>

definition stuck :: "time \<Rightarrow> time \<Rightarrow> event list \<Rightarrow> verdict \<Rightarrow> time option" where
  "stuck now grace events v =
     (if v_class v = ''open'' \<and> grace < now - last_ts events then Some (round_to 1 (now - last_ts events))
      else if v_class v = ''resting'' \<and> truthy (v_expires_at v) \<and> grace < now - the (v_expires_at v)
        then Some (round_to 1 (now - the (v_expires_at v)))
      else None)"

record sealed_report =
  s_seen :: nat
  s_terminal :: nat
  s_stuck_open :: nat
  s_zero_loss :: bool
  s_breakdown :: "(string, nat) dict"
  s_sample_lost :: "(order_key \<times> time) list"

record report =
  r_orders_seen :: nat
  r_slo :: rat
  r_target :: rat
  r_pass :: bool
  r_cleared :: nat
  r_missed :: nat
  r_missed_terminal :: nat
  r_breakdown :: "(string, nat) dict"
  r_resting :: nat
  r_resting_crossed :: nat
  r_orders_with_retries :: nat
  r_p50 :: "time option"
  r_p99 :: "time option"
  r_stuck_open_count :: nat
  r_stuck_open :: "(order_key \<times> time) list"
  r_sample_missed :: "(order_key \<times> string option \<times> nat) list"
  r_sealed :: sealed_report

text \<open>The orders stuck open, and the sealed ones of them that are open (not resting).\<close>

definition stuck_open :: "time \<Rightarrow> time \<Rightarrow> (order_key \<times> event list \<times> verdict) list \<Rightarrow> (order_key \<times> time) list" where
  "stuck_open now grace vs = List.map_filter (\<lambda>(k, es, v). case stuck now grace es v of None \<Rightarrow> None | Some d \<Rightarrow> Some (k, d)) vs"

definition sealed_lost :: "time \<Rightarrow> time \<Rightarrow> (order_key \<times> event list \<times> verdict) list \<Rightarrow> (order_key \<times> time) list" where
  "sealed_lost now grace vs = stuck_open now grace (filter (\<lambda>(k, es, v). v_sealed v \<and> v_class v = ''open'') vs)"

definition percentiles :: "time list \<Rightarrow> time option \<times> time option" where
  "percentiles latencies =
     (if latencies = [] then (None, None)
      else let s = sort latencies
           in (Some (s ! (length s div 2)), Some (s ! min (length s - 1) (length s * 99 div 100))))"

text \<open>The report over the judged orders.\<close>

definition report_of :: "rat \<Rightarrow> time \<Rightarrow> time \<Rightarrow> (order_key \<times> event list \<times> verdict) list \<Rightarrow> report" where
  "report_of target grace now vs =
     (let verdicts = map (\<lambda>(_, _, v). v) vs;
          classes = tally (map v_class verdicts);
          sealed = filter v_sealed verdicts;
          so = stuck_open now grace vs;
          lost = sealed_lost now grace vs;
          cleared = dget_or classes ''cleared'' 0;
          missed = dget_or classes ''missed'' 0 + length so;
          slo = slo_of cleared missed;
          ps = percentiles (List.map_filter (\<lambda>v. if v_class v = ''cleared'' then v_latency v else None) verdicts);
          zero_loss = (lost = [])
      in \<lparr>r_orders_seen = length vs, r_slo = round_to 6 slo, r_target = target,
          r_pass = (target \<le> slo \<and> so = [] \<and> zero_loss), r_cleared = cleared, r_missed = missed,
          r_missed_terminal = dget_or classes ''missed'' 0, r_breakdown = classes,
          r_resting = dget_or classes ''resting'' 0,
          r_resting_crossed = length (filter (\<lambda>v. v_class v = ''resting'' \<and> v_crossed v) verdicts),
          r_orders_with_retries = length (filter (\<lambda>v. v_retries v \<noteq> 0) verdicts),
          r_p50 = fst ps, r_p99 = snd ps, r_stuck_open_count = length so, r_stuck_open = take 20 so,
          r_sample_missed = take 20 (List.map_filter (\<lambda>(k, _, v).
             if v_class v = ''missed'' then Some (k, v_terminal v, v_retries v) else None) vs),
          r_sealed = \<lparr>s_seen = length sealed, s_terminal = length (filter (\<lambda>v. v_terminal v \<noteq> None) sealed),
            s_stuck_open = length lost, s_zero_loss = zero_loss, s_breakdown = tally (map v_class sealed),
            s_sample_lost = take 20 lost\<rparr>\<rparr>)"

definition score :: "rat \<Rightarrow> time \<Rightarrow> time \<Rightarrow> histories \<Rightarrow> report res" where
  "score target grace now orders =
     bind_res (map_res (\<lambda>(k, es). bind_res (judge es) (\<lambda>v. Inr (k, es, v))) orders)
       (\<lambda>vs. Inr (report_of target grace now vs))"

section \<open>The chain section\<close>

record 'v chain_sec =
  cs_pass :: bool
  cs_verdict :: "'v option"
  cs_parity :: "'v option"

text \<open>The watcher's verdict and the parity result as read from the files named, with the truth of
  their \<^verbatim>\<open>pass\<close> field.\<close>

definition chain_section :: "('v \<Rightarrow> bool) \<Rightarrow> 'v option \<Rightarrow> 'v option \<Rightarrow> 'v chain_sec" where
  "chain_section passed chain parity =
     \<lparr>cs_pass = ((case chain of None \<Rightarrow> True | Some v \<Rightarrow> passed v) \<and> (case parity of None \<Rightarrow> True | Some p \<Rightarrow> passed p)),
      cs_verdict = chain, cs_parity = parity\<rparr>"

record 'v full_report = report +
  r_orders_pass :: bool
  r_chain :: "'v chain_sec"

definition with_chain :: "report \<Rightarrow> 'v chain_sec \<Rightarrow> 'v full_report" where
  "with_chain rep sec = report.extend (rep\<lparr>r_pass := r_pass rep \<and> cs_pass sec\<rparr>)
     \<lparr>r_orders_pass = r_pass rep, r_chain = sec\<rparr>"

section \<open>Histories of a log\<close>

definition histories_of :: "event list \<Rightarrow> histories" where
  "histories_of lg = fold add_event lg []"

lemma histories_fold:
  "dget (fold add_event lg d) k = (if evs k lg = [] then dget d k else Some (dget_or d k [] @ evs k lg))"
  by (induction lg arbitrary: d) (auto simp: add_event_def evs_def dget_or_def)

lemma dget_histories [simp]: "dget (histories_of lg) k = (if evs k lg = [] then None else Some (evs k lg))"
  unfolding histories_of_def histories_fold by (simp add: dget_or_def)

lemma wf_histories: "wf_dict (histories_of lg)"
proof -
  have "wf_dict (fold add_event lg d)" if "wf_dict d" for d
    using that by (induction lg arbitrary: d) (simp_all add: add_event_def)
  then show ?thesis by (simp add: histories_of_def)
qed

lemma in_histories: "(k, es) \<in> set (histories_of lg) \<longleftrightarrow> es = evs k lg \<and> evs k lg \<noteq> []"
  using wf_histories [of lg] by (auto simp: wf_dict_def simp flip: map_of_eq_Some_iff split: if_splits)

lemma foldl_max_sorted: "sorted (x # xs) \<Longrightarrow> foldl max x xs = last (x # xs)" for x :: "'a :: linorder"
  by (induction xs arbitrary: x) (auto simp: max_def)

lemma last_ts_sorted:
  assumes "es \<noteq> []" and "sorted (map ev_ts es)"
  shows "last_ts es = ev_ts (last es)"
proof -
  obtain e es' where es: "es = e # es'" using assms(1) by (cases es) auto
  have "last_ts es = foldl max (ev_ts e) (map ev_ts es')" by (simp add: last_ts_def es)
  also have "\<dots> = last (map ev_ts es)" using foldl_max_sorted [of "ev_ts e" "map ev_ts es'"] assms(2) by (simp add: es)
  finally show ?thesis using assms(1) by (simp add: last_map)
qed

lemma last_filter_last: "es \<noteq> [] \<Longrightarrow> P (last es) \<Longrightarrow> last (filter P es) = last es"
  by (induction es) (auto simp: filter_empty_conv)

lemma class_not_live:
  "order_class es m (Some oc) \<noteq> ''open''" "order_class es m (Some oc) \<noteq> ''resting''"
  by (simp_all add: order_class_def)

lemma judge_class:
  "judge es = Inr v \<Longrightarrow> v_class v = order_class es (v_marketable v) (v_terminal v) \<and>
     v_terminal v = (case find (is_event ''terminal'') es of None \<Rightarrow> None | Some e \<Rightarrow> ev_outcome e) \<and>
     v_expires_at v = (case last_opt (filter (is_event ''rested'') es) of None \<Rightarrow> None | Some e \<Rightarrow> ev_expires_at e) \<and>
     es \<noteq> [] \<and> (find (is_event ''terminal'') es = None) = (v_terminal v = None)"
  by (auto simp: judge_def Let_def split: if_splits option.splits)

lemma no_terminal: "(find (is_event ''terminal'') es = None) \<longleftrightarrow> (\<forall>e\<in>set es. ev_event e \<noteq> ''terminal'')"
  by (auto simp: find_None_iff is_event_def)

text \<open>For an order of a telemetry run, the verdict's stuck test and the live gauge's are the same.\<close>

lemma stuck_iff_stale:
  assumes inv: "tel_inv t c" and j: "judge (evs k (t_log t)) = Inr v"
  shows "stuck now OPEN_GRACE (evs k (t_log t)) v \<noteq> None \<longleftrightarrow> (\<exists>rec. dget (t_orders t) k = Some rec \<and> stale now rec)"
proof (cases "dget (t_orders t) k")
  case None
  let ?es = "evs k (t_log t)"
  note c = judge_class [OF j]
  then have "find (is_event ''terminal'') ?es \<noteq> None"
    using tel_invD(4) [OF inv None] by (auto simp: no_terminal)
  then obtain oc where "v_terminal v = Some oc" using c by auto
  then have "v_class v \<noteq> ''open'' \<and> v_class v \<noteq> ''resting''" using c class_not_live by simp
  then show ?thesis using None by (simp add: stuck_def)
next
  case (Some rec)
  let ?es = "evs k (t_log t)"
  note l = tel_invD(3) [OF inv Some, unfolded live_inv_def]
  note c = judge_class [OF j]
  have tm: "v_terminal v = None" using c l no_terminal [of ?es] by simp
  have srt: "sorted (map ev_ts ?es)"
    using inv by (auto simp: tel_inv_def evs_def sorted_filter)
  have last: "last_ts ?es = the (l_last rec)" using l last_ts_sorted [OF _ srt] by simp
  show ?thesis
  proof (cases "l_phase rec = ''rested''")
    case True
    then have lr: "is_event ''rested'' (last ?es)" using l by (simp add: is_event_def)
    have "filter (is_event ''rested'') ?es \<noteq> []" "last (filter (is_event ''rested'') ?es) = last ?es"
      using l lr by (simp_all add: filter_empty_conv last_filter_last) force
    then have "v_expires_at v = l_expires_at rec" using c l True by (simp add: last_opt_def)
    then show ?thesis using tm c lr True Some l
      by (simp add: stuck_def order_class_def stale_def lateness_def)
  next
    case False
    then have "\<not> is_event ''rested'' (last ?es)" using l by (simp add: is_event_def)
    then have "v_class v = ''open''" using tm c by (simp add: order_class_def)
    then show ?thesis using False Some l last
      by (simp add: stuck_def stale_def lateness_def)
  qed
qed

section \<open>Counting\<close>

lemma map_res_list_all2: "map_res f xs = Inr ys \<Longrightarrow> list_all2 (\<lambda>x y. f x = Inr y) xs ys"
  by (induction xs arbitrary: ys) (auto simp: res_simps)

lemma map_res_total: "\<forall>x\<in>set xs. \<exists>y. f x = Inr y \<Longrightarrow> \<exists>ys. map_res f xs = Inr ys"
  by (induction xs) (auto simp: res_simps)

definition judged :: "histories \<Rightarrow> (order_key \<times> event list \<times> verdict) list res" where
  "judged orders = map_res (\<lambda>(k, es). bind_res (judge es) (\<lambda>v. Inr (k, es, v))) orders"

lemma judged_in:
  assumes "judged orders = Inr vs"
  shows "map fst vs = map fst orders"
    and "(k, es, v) \<in> set vs \<Longrightarrow> (k, es) \<in> set orders \<and> judge es = Inr v"
    and "(k, es) \<in> set orders \<Longrightarrow> \<exists>v. (k, es, v) \<in> set vs"
proof -
  have "list_all2 (\<lambda>(k, es) y. bind_res (judge es) (\<lambda>v. Inr (k, es, v)) = Inr y) orders vs"
    using map_res_list_all2 [OF assms [unfolded judged_def]] by (simp add: case_prod_unfold)
  then have "map fst vs = map fst orders \<and> ((k, es, v) \<in> set vs \<longrightarrow> (k, es) \<in> set orders \<and> judge es = Inr v) \<and>
      ((k, es) \<in> set orders \<longrightarrow> (\<exists>v. (k, es, v) \<in> set vs))"
    by (induction rule: list_all2_induct) (auto simp: res_simps)
  then show "map fst vs = map fst orders"
    and "(k, es, v) \<in> set vs \<Longrightarrow> (k, es) \<in> set orders \<and> judge es = Inr v"
    and "(k, es) \<in> set orders \<Longrightarrow> \<exists>v. (k, es, v) \<in> set vs" by blast+
qed

lemma stuck_open_keys:
  "map fst (stuck_open now g vs) = map fst (filter (\<lambda>(k, es, v). stuck now g es v \<noteq> None) vs)"
  by (induction vs) (auto simp: stuck_open_def map_filter_simps split: option.splits)

lemma judge_total:
  assumes "es \<noteq> []" and "\<forall>e\<in>set es. ev_event e = ''terminal'' \<longrightarrow> ev_outcome e \<noteq> None"
  shows "\<exists>v. judge es = Inr v"
proof (cases "find (is_event ''terminal'') es")
  case None
  then show ?thesis using assms(1) by (simp add: judge_def Let_def)
next
  case (Some e)
  then have "e \<in> set es" "ev_event e = ''terminal''" by (auto simp: find_Some_iff is_event_def)
  then obtain oc where "ev_outcome e = Some oc" using assms(2) by auto
  then show ?thesis using assms(1) Some by (simp add: judge_def Let_def)
qed

lemma same_keys_same_length:
  assumes "distinct (map fst xs)" and "distinct (map fst ys)" and "fst ` set xs = fst ` set ys"
  shows "length xs = length ys"
  using assms by (metis distinct_card length_map set_map)

lemma stuck_count:
  assumes inv: "tel_inv t c" and vs: "judged (histories_of (t_log t)) = Inr vs"
  shows "length (stuck_open now OPEN_GRACE vs) = length (filter (stale now) (map snd (t_orders t)))"
proof -
  let ?st = "filter (\<lambda>(k, es, v). stuck now OPEN_GRACE es v \<noteq> None) vs"
  let ?la = "filter (\<lambda>p. stale now (snd p)) (t_orders t)"
  note j = judged_in [OF vs]
  have wf: "distinct (map fst (t_orders t))" using tel_invD(2) [OF inv] by (simp add: wf_dict_def)
  have "distinct (map fst vs)" unfolding j(1) using wf_histories [of "t_log t"] by (simp add: wf_dict_def)
  then have d: "distinct (map fst ?st)" by (rule distinct_map_filter)
  have "fst ` set ?st = fst ` set ?la"
  proof (intro set_eqI iffI)
    fix k assume "k \<in> fst ` set ?st"
    then obtain es v where v: "(k, es, v) \<in> set vs" "stuck now OPEN_GRACE es v \<noteq> None" by auto
    then have "es = evs k (t_log t)" "judge es = Inr v" using j(2) by (auto simp: in_histories)
    with v(2) obtain rec where "dget (t_orders t) k = Some rec" "stale now rec" using stuck_iff_stale [OF inv] by blast
    then show "k \<in> fst ` set ?la" using wf by (force dest: map_of_SomeD)
  next
    fix k assume "k \<in> fst ` set ?la"
    then obtain rec where r: "dget (t_orders t) k = Some rec" "stale now rec" using wf by auto
    have "evs k (t_log t) \<noteq> []" using tel_invD(3) [OF inv r(1)] by (simp add: live_inv_def)
    then obtain v where v: "(k, evs k (t_log t), v) \<in> set vs" using j(3) [of k "evs k (t_log t)"] by (auto simp: in_histories)
    have "stuck now OPEN_GRACE (evs k (t_log t)) v \<noteq> None"
      using stuck_iff_stale [OF inv] j(2) [OF v] r by blast
    with v show "k \<in> fst ` set ?st" by force
  qed
  then have "length ?st = length ?la"
    by (rule same_keys_same_length [OF d distinct_map_filter [OF wf]])
  then show ?thesis
    using arg_cong [OF stuck_open_keys [of now OPEN_GRACE vs], of length] by (simp add: filter_map comp_def)
qed

definition live_ok :: "time \<Rightarrow> time \<Rightarrow> event list \<Rightarrow> bool" where
  "live_ok now grace es \<longleftrightarrow> list_ex (is_event ''terminal'') es \<or>
     (if is_event ''rested'' (last es) then truthy (ev_expires_at (last es)) \<longrightarrow> now - the (ev_expires_at (last es)) \<le> grace
      else now - last_ts es \<le> grace)"

lemma not_stuck_iff:
  assumes "judge es = Inr v"
  shows "stuck now grace es v = None \<longleftrightarrow> live_ok now grace es"
proof (cases "list_ex (is_event ''terminal'') es")
  case True
  note c = judge_class [OF assms]
  have "find (is_event ''terminal'') es \<noteq> None" using True by (auto simp: list_ex_iff find_None_iff)
  then obtain oc where "v_terminal v = Some oc" using c by auto
  then show ?thesis using True c class_not_live by (simp add: stuck_def live_ok_def)
next
  case False
  note c = judge_class [OF assms]
  have "find (is_event ''terminal'') es = None" using False by (auto simp: list_ex_iff find_None_iff)
  then have tm: "v_terminal v = None" using c by simp
  show ?thesis
  proof (cases "is_event ''rested'' (last es)")
    case True
    then have "filter (is_event ''rested'') es \<noteq> []" "last (filter (is_event ''rested'') es) = last es"
      using c by (simp_all add: filter_empty_conv last_filter_last) force
    then show ?thesis using True False tm c by (auto simp: stuck_def live_ok_def order_class_def last_opt_def)
  next
    case notr: False
    then show ?thesis using False tm c by (auto simp: stuck_def live_ok_def order_class_def)
  qed
qed

lemma stuck_open_Nil: "stuck_open now g vs = [] \<longleftrightarrow> (\<forall>(k, es, v)\<in>set vs. stuck now g es v = None)"
  by (induction vs) (auto simp: stuck_open_def map_filter_simps split: option.splits)

lemma sealed_lost_Nil: "stuck_open now g vs = [] \<Longrightarrow> sealed_lost now g vs = []"
  unfolding sealed_lost_def stuck_open_Nil by auto

section \<open>Properties\<close>

text \<open>C21: on every run of the telemetry, the verdict over its log and the live gauge count the same
  orders as stuck open: the verdict always comes to a report, and its stuck-open count is the
  number of stale live orders the snapshot gives.\<close>

theorem live_gauge_matches_verdict:
  assumes "tel_reach t c"
  shows "\<exists>rep. score target OPEN_GRACE now (histories_of (t_log t)) = Inr rep \<and>
    r_stuck_open_count rep = sr_stale (fst (snapshot now t))"
proof -
  note inv = tel_reach_inv [OF assms]
  have "\<forall>(k, es)\<in>set (histories_of (t_log t)). \<exists>v. judge es = Inr v"
    using inv by (auto simp: in_histories tel_inv_def evs_def intro!: judge_total)
  then have "\<exists>vs. judged (histories_of (t_log t)) = Inr vs"
    unfolding judged_def by (intro map_res_total) (auto simp: res_simps)
  then obtain vs where vs: "judged (histories_of (t_log t)) = Inr vs" ..
  show ?thesis
    using vs stuck_count [OF inv vs, of now]
    by (simp add: score_def judged_def report_of_def Let_def snapshot_stale)
qed


definition sample_tel :: "nat telemetry" where
  "sample_tel = \<lparr>t_orders = [], t_cleared = 0, t_missed = 0, t_writable = True, t_log = [], t_metrics = fresh_registry\<rparr>"

definition sample_run :: "nat telemetry" where
  "sample_run = terminal (\<lambda>_. 9) (1, 2, 4) ''expired'' 0 None (terminal (\<lambda>_. 8) (1, 2, 3) ''filled'' 5 None
     (placed (\<lambda>_. 7) (1, 2, 4) 0 10 5 False True (placed (\<lambda>_. 7) (1, 2, 3) 0 10 5 False False sample_tel)))"

theorem live_gauge_matches_verdict_witness:
  "\<exists>rep. score 1 OPEN_GRACE 1000 (histories_of (t_log (placed (\<lambda>_. 7) (1, 2, 3) 0 10 5 False False sample_tel))) = Inr rep \<and>
     r_stuck_open_count rep = 1"
proof -
  let ?t = "placed (\<lambda>_. 7) (1, 2, 3) 0 10 5 False False sample_tel"
  have "tel_reach sample_tel 0" by (rule tel_reach.start) (simp_all add: sample_tel_def)
  then have "tel_reach ?t 7" by (rule tel_reach.placed) (simp_all add: sample_tel_def evs_def)
  from live_gauge_matches_verdict [OF this, of 1 1000] show ?thesis
    by (simp add: snapshot_stale placed_def sample_tel_def log_live_def write_line_def metric_def stale_def lateness_def
        stamp_def mk_event_def OPEN_GRACE_def Let_def round_to_exact)
qed



end
