(* ===== verification/Server_State.thy ===== *)
theory Server_State
  imports Chain_Types Seq_Cap Treasury Soak_Verdict
begin

text \<open>
  The state of \<^verbatim>\<open>src/offchain/server.py\<close> and its primitive operations. The module's globals are the
  fields of \<open>dex\<close>; its configuration (constants read from the environment) and everything outside the
  process are fields of \<open>env\<close>: what the chain answers to each read and submission, the clocks, the random
  octets, the committee sidecar and the ed25519 library, each a function of a tick that counts the
  interactions, so any sequence of answers, including errors, is one environment. While a call waits for
  the chain, other request threads may place orders: \<open>w_arrive\<close> gives the orders appended to the
  mempools during a tick, and \<open>w_busy\<close> says whether another thread holds a market's lock. Orders and
  records have value semantics; \<open>o_uid\<close> and \<open>rr_uid\<close> stand for object identity. \<open>d_ended\<close> and
  \<open>d_repriced\<close> are the two things a round build changes in place under its caller's eyes: the set of
  orders it has ended and the prices it gave market orders. Log output, the human-readable details of
  ledger entries, the JSON files that persist receipts and trades, and the forensic copies of payloads
  on disk are not modelled.
\<close>

section \<open>Types\<close>

text \<open>The settle predicates the ledger stores.\<close>

datatype check =
    Balance_at_least int int int
  | Nonce_above int int
  | Handle_known bytes
  | Round_landed bytes

record live_order = order +
  lo_address :: string
  lo_outcome :: "string option"
  lo_reason :: "string option"

type_synonym incarnation = "int \<times> int \<times> bytes option"

record round_rec =
  rr_uid :: nat
  rr_t :: time
  rr_sealed :: "live_order list"
  rr_public :: "live_order list"
  rr_resting :: "live_order list"
  rr_clearing :: clearing
  rr_pruned :: "(int \<times> int) list"
  rr_rid :: bytes
  rr_book_hash :: bytes
  rr_consumed :: "bytes list"
  rr_set_key :: bytes
  rr_minseq :: "(int, int) dict"
  rr_claimed :: "(incarnation, bytes) dict"
  rr_ok_since :: "time option"
  rr_dead_since :: "time option"
  rr_abandoned_at :: time
  rr_why :: string

record exec_rec =
  ex_ts :: time
  ex_market :: int
  ex_side :: int
  ex_price :: rat
  ex_qty :: rat
  ex_filled :: rat
  ex_remainder :: rat
  ex_disposition :: string
  ex_reason :: "string option"
  ex_oid :: int
  ex_settle_height :: "int option"
  ex_round :: "bytes option"
  ex_final :: "bool option"

record trade_rec =
  tr_ts :: time
  tr_price :: rat
  tr_volume :: rat
  tr_dir :: string

record cancel_rec =
  cw_market :: int
  cw_account :: int
  cw_oid :: int
  cw_nonce :: int
  cw_t :: time
  cw_side :: int
  cw_price :: int
  cw_qty :: int

record reg_rec =
  rg_payload :: bytes
  rg_t :: time
  rg_attempts :: nat
  rg_last :: time

record finality =
  fv_available :: bool
  fv_finalized_height :: int
  fv_block_height :: "int option"
  fv_finalized_slot :: int
  fv_slot :: int
  fv_lag :: int
  fv_by_slot :: bool
  fv_hashes :: "(bytes \<times> bytes) option"

datatype fin_key = Slot_hash "int option" bytes | Height "int option"

record fin_track =
  ft_key :: "fin_key option"
  ft_seen :: time
  ft_moved :: "time option"

record topup =
  tu_payload :: "bytes option"
  tu_nonce :: "int option"
  tu_sent :: "time option"

record dex =
  d_tick :: nat
  d_uid :: nat
  d_pending :: "(int, live_order list) dict"
  d_next_oid :: int
  d_expiry :: "(order_key, time) dict"
  d_fin_cache :: "(time \<times> finality) option"
  d_fin_track :: fin_track
  d_deposit_nonce :: int
  d_cancel_watch :: "cancel_rec list"
  d_reg_pending :: "(bytes, reg_rec) dict"
  d_seal_drafts :: "(int \<times> int, live_order) dict"
  d_round_gate :: "(int, time) dict"
  d_inflight :: "(int, round_rec) dict"
  d_zombies :: "(int, round_rec list) dict"
  d_enc_cap :: "(int, nat) dict"
  d_carry_retry :: "(int, live_order list) dict"
  d_commit_seen :: "(int, (bytes, int) dict) dict"
  d_topup :: topup
  d_trades :: "(int, trade_rec list) dict"
  d_last_cv :: "(int, int) dict"
  d_execs :: "(int, exec_rec list) dict"
  d_ended :: "incarnation list"
  d_repriced :: "(nat, int) dict"
  d_next_auction :: time
  d_tel :: "check telemetry"

record env =
  c_enc_mode :: bool
  c_have_nacl :: bool
  c_require_sig :: bool
  c_sweep :: bool
  c_backpressure :: bool
  c_reserve_buffer_kb :: int
  c_rent_budget_kbs :: rat
  c_max_resting_secs :: rat
  c_max_open_orders :: int
  c_settle_hold_secs :: "time option"
  c_settle_hold_slots :: int
  c_finality_window_slots :: int
  c_dead_confirm_secs :: time
  c_zombie_watch_secs :: time
  c_reg_retry_secs :: time
  c_reg_giveup_secs :: time
  c_reg_max_attempts :: nat
  c_round_gate_secs :: time
  c_max_round_orders :: nat
  c_round_gas_budget :: nat
  w_time :: "nat \<Rightarrow> time"
  w_time_ns :: "nat \<Rightarrow> int"
  w_token :: "nat \<Rightarrow> bytes"
  w_read :: "nat \<Rightarrow> bytes \<Rightarrow> bytes res"
  w_read_final :: "nat \<Rightarrow> bytes \<Rightarrow> bytes res"
  w_read_at :: "nat \<Rightarrow> block option \<Rightarrow> bytes \<Rightarrow> bytes res"
  w_submit :: "nat \<Rightarrow> bytes \<Rightarrow> receipt res"
  w_head :: "nat \<Rightarrow> block option res"
  w_finalized :: "nat \<Rightarrow> block option res"
  w_service_info :: "nat \<Rightarrow> service_info res"
  w_encrypt :: "nat \<Rightarrow> int \<Rightarrow> bytes \<Rightarrow> bytes \<Rightarrow> bytes res"
  w_committee_round :: "nat \<Rightarrow> int \<Rightarrow> int \<Rightarrow> int \<Rightarrow> bytes \<Rightarrow> bytes list \<Rightarrow> bytes res"
  w_committee_setup :: "nat \<Rightarrow> bytes res"
  w_verify :: "bytes \<Rightarrow> bytes \<Rightarrow> bytes \<Rightarrow> bool"
  w_gov_sign :: "bytes \<Rightarrow> bytes"
  w_busy :: "nat \<Rightarrow> int \<Rightarrow> bool"
  w_arrive :: "nat \<Rightarrow> (int \<times> live_order) list"

type_synonym 'a dexm = "(dex, 'a) st"

section \<open>The world\<close>

text \<open>\<^verbatim>\<open>pending.setdefault(m, []).append(o)\<close>\<close>

definition enqueue :: "int \<Rightarrow> live_order \<Rightarrow> (int, live_order list) dict \<Rightarrow> (int, live_order list) dict" where
  "enqueue m od p = dset m (dget_or p m [] @ [od]) p"

definition new_object :: "int \<Rightarrow> live_order \<Rightarrow> dex \<Rightarrow> dex" where
  "new_object m od s = s\<lparr>d_pending := enqueue m (od\<lparr>o_uid := d_uid s\<rparr>) (d_pending s), d_uid := d_uid s + 1\<rparr>"

definition arrive :: "env \<Rightarrow> dex \<Rightarrow> dex" where
  "arrive E s = (fold (\<lambda>(m, od). new_object m od) (w_arrive E (d_tick s)) s)\<lparr>d_tick := d_tick s + 1\<rparr>"

text \<open>A call that waits for the outside, and one that does not (clocks, random octets).\<close>

definition ask :: "env \<Rightarrow> (nat \<Rightarrow> 'a res) \<Rightarrow> 'a dexm" where
  "ask E f s = (f (d_tick s), arrive E s)"

definition peek :: "(nat \<Rightarrow> 'a) \<Rightarrow> 'a dexm" where
  "peek f s = (Inr (f (d_tick s)), s\<lparr>d_tick := d_tick s + 1\<rparr>)"

abbreviation py_time :: "env \<Rightarrow> time dexm" where "py_time E \<equiv> peek (w_time E)"

definition tel :: "env \<Rightarrow> (clock \<Rightarrow> check telemetry \<Rightarrow> check telemetry) \<Rightarrow> unit dexm" where
  "tel E f = supd (\<lambda>s. s\<lparr>d_tel := f (\<lambda>i. w_time E (d_tick s + i)) (d_tel s), d_tick := d_tick s + 3\<rparr>)"

definition mtr :: "(check registry \<Rightarrow> check registry) \<Rightarrow> unit dexm" where
  "mtr f = supd (\<lambda>s. s\<lparr>d_tel := metric f (d_tel s)\<rparr>)"

section \<open>Constants, units and octets\<close>

definition TAG_DEPOSIT :: byte where "TAG_DEPOSIT = 1"
definition TAG_COMMIT :: byte where "TAG_COMMIT = 2"
definition TAG_REVEAL :: byte where "TAG_REVEAL = 3"
definition TAG_CANCEL :: byte where "TAG_CANCEL = 4"
definition TAG_WITHDRAW :: byte where "TAG_WITHDRAW = 5"
definition TAG_LIST :: byte where "TAG_LIST = 6"
definition TAG_REGISTER :: byte where "TAG_REGISTER = 7"
definition TAG_TREASURY :: byte where "TAG_TREASURY = 8"
definition TAG_ENC_COMMIT :: byte where "TAG_ENC_COMMIT = 10"
definition TAG_SMATCH :: byte where "TAG_SMATCH = 12"
definition TAG_CARRY_COMMIT :: byte where "TAG_CARRY_COMMIT = 13"
definition TAG_CARRY_ENC_COMMIT :: byte where "TAG_CARRY_ENC_COMMIT = 14"
definition FLAG_MARKET :: byte where "FLAG_MARKET = 1"
definition SET_ENTRY_LEN :: nat where "SET_ENTRY_LEN = 36"
definition FEE_ACCOUNT :: int where "FEE_ACCOUNT = 0xFFFFFFFF"
definition SCALE :: int where "SCALE = 10000"
definition SLOT_SECS :: int where "SLOT_SECS = 6"

definition to_atomic :: "rat \<Rightarrow> int" where
  "to_atomic x = py_round (x * of_int SCALE)"

definition disp :: "int \<Rightarrow> rat" where
  "disp v = round_to 4 (of_int v / of_int SCALE)"

definition commitment :: "bytes \<Rightarrow> bytes" where
  "commitment reveal_bytes = blake2s256 reveal_bytes"

definition order_bytes :: "int \<Rightarrow> int \<Rightarrow> int \<Rightarrow> int \<Rightarrow> int \<Rightarrow> bytes res" where
  "order_bytes a oid side p q = packs [(4, a), (4, oid), (1, side), (4, p), (4, q)]"

text \<open>The 17-octet rows of a book, \<^verbatim>\<open>struct.unpack_from("<IIBII", raw, i * 17)\<close>.\<close>

type_synonym row = "int \<times> int \<times> int \<times> int \<times> int"

definition row_at :: "bytes \<Rightarrow> nat \<Rightarrow> row" where
  "row_at raw i = (let b = i * 17 in
     (field b 4 raw, field (b + 4) 4 raw, field (b + 8) 1 raw, field (b + 9) 4 raw, field (b + 13) 4 raw))"

definition book_rows :: "bytes \<Rightarrow> row list" where
  "book_rows raw = map (row_at raw) [0..<length raw div 17]"

definition TAG_NAMES :: "(byte \<times> string) list" where
  "TAG_NAMES = [(0, ''match''), (1, ''deposit''), (2, ''commit''), (3, ''reveal''), (4, ''cancel''),
     (5, ''withdraw''), (6, ''list''), (7, ''register''), (8, ''treasury''), (9, ''enc_setup''),
     (10, ''enc_commit''), (11, ''enc_round''), (12, ''round''), (13, ''carry_commit''), (14, ''carry_enc_commit'')]"

definition op_name :: "byte \<Rightarrow> string" where
  "op_name b = (case dget TAG_NAMES b of Some n \<Rightarrow> n | None \<Rightarrow> ''tag'' @ show_nat (unat b))"

section \<open>Reads and submissions\<close>

definition storage :: "env \<Rightarrow> bytes \<Rightarrow> bytes dexm" where
  "storage E key = ask E (\<lambda>t. w_read E t key)"

text \<open>A read under a prefix and packed fields.\<close>

definition storage_at :: "env \<Rightarrow> string \<Rightarrow> (nat \<times> int) list \<Rightarrow> bytes dexm" where
  "storage_at E prefix fs = sbind (slift (packs fs)) (\<lambda>k. storage E (ascii prefix @ k))"

definition bal :: "env \<Rightarrow> int \<Rightarrow> int \<Rightarrow> int dexm" where
  "bal E asset acct = sbind (storage_at E ''b'' [(4, asset), (4, acct)]) (\<lambda>v. sret (int (le_dec v)))"

definition handle_of :: "env \<Rightarrow> bytes \<Rightarrow> int option dexm" where
  "handle_of E pubkey = sbind (storage E (ascii ''h'' @ pubkey)) (\<lambda>v. sret (if v = [] then None else Some (int (le_dec v))))"

definition nonce_of :: "env \<Rightarrow> int \<Rightarrow> int dexm" where
  "nonce_of E handle = sbind (storage_at E ''nc'' [(4, handle)]) (\<lambda>v. sret (int (le_dec v)))"

definition canon :: "string \<Rightarrow> bytes list \<Rightarrow> bytes" where
  "canon action parts = ascii ''jamswap:v1:'' @ ascii action @ concat parts"

definition mstate :: "env \<Rightarrow> string \<Rightarrow> int \<Rightarrow> int dexm" where
  "mstate E prefix m = sbind (storage_at E prefix [(4, m)]) (\<lambda>v. sret (int (le_dec v)))"

record book_entry =
  be_account :: int
  be_id :: int
  be_buy :: bool
  be_price :: rat
  be_qty :: rat

definition book_of :: "env \<Rightarrow> int \<Rightarrow> book_entry list dexm" where
  "book_of E m = sbind (storage_at E ''book'' [(4, m)]) (\<lambda>bk.
     sret (map (\<lambda>(a, oid, side, p, q). \<lparr>be_account = a, be_id = oid, be_buy = (side = BUY),
       be_price = disp p, be_qty = disp q\<rparr>) (book_rows bk)))"

definition opposes :: "int \<Rightarrow> int \<Rightarrow> int \<Rightarrow> int \<Rightarrow> bool" where
  "opposes side price bside p \<longleftrightarrow>
     side = BUY \<and> bside = SELL \<and> p \<le> price \<or> side = SELL \<and> bside = BUY \<and> price \<le> p"

definition marketable :: "env \<Rightarrow> int \<Rightarrow> int \<Rightarrow> int \<Rightarrow> bool dexm" where
  "marketable E m side price =
     stry (sbind (storage_at E ''book'' [(4, m)]) (\<lambda>raw.
             if list_ex (\<lambda>(_, _, bside, p, q). 0 < q \<and> opposes side price bside p) (book_rows raw) then sret True
             else sget (\<lambda>s. list_ex (\<lambda>od. \<not> o_sealed od \<and> opposes side price (o_side od) (o_price od))
                              (dget_or (d_pending s) m []))))
       (\<lambda>_. sret False)"

text \<open>\<^verbatim>\<open>submit\<close>: the ledger entry is resolved as refused when the payload never reached the chain.\<close>

definition submit :: "env \<Rightarrow> bytes \<Rightarrow> check option \<Rightarrow> string \<Rightarrow> receipt dexm" where
  "submit E payload chk detail =
     (if payload = [] then sraise IndexError
      else let op = op_name (hd payload) in
      sbind (py_time E) (\<lambda>now.
      sbind (sget (\<lambda>s. fst (track op detail chk now (t_metrics (d_tel s))))) (\<lambda>tid.
      sthen (mtr (\<lambda>r. snd (track op detail chk now r)))
        (stry (sbind (ask E (\<lambda>t. w_submit E t payload)) (\<lambda>receipt.
                 sthen (mtr (\<lambda>r. (case rc_build_seconds receipt of None \<Rightarrow> r
                     | Some v \<Rightarrow> observe ''jamswap_submit_build_seconds'' [(''op'', op)] v r)))
                (sthen (mtr (\<lambda>r. (case rc_send_seconds receipt of None \<Rightarrow> r
                     | Some v \<Rightarrow> observe ''jamswap_submit_send_seconds'' [(''op'', op)] v r)))
                  (sret receipt))))
           (\<lambda>e. case e of
               ChainBusy t \<Rightarrow> sthen (mtr (refused tid)) (sraise (ChainBusy (op @ '': '' @ t)))
             | ChainUnsupported t \<Rightarrow> sthen (mtr (refused tid)) (sraise e)
             | _ \<Rightarrow> sraise e)))))"

section \<open>Finality\<close>

definition fin_key_of :: "block \<Rightarrow> fin_key" where
  "fin_key_of fin = (case bk_hash fin of Some h \<Rightarrow> Slot_hash (bk_slot fin) h | None \<Rightarrow> Height (bk_height fin))"

definition track_finality :: "fin_key \<Rightarrow> time \<Rightarrow> fin_track \<Rightarrow> fin_track" where
  "track_finality key now t =
     t\<lparr>ft_moved := (if ft_key t \<noteq> None \<and> Some key \<noteq> ft_key t then Some (ft_seen t) else ft_moved t),
       ft_key := Some key, ft_seen := now\<rparr>"

definition no_finality :: finality where
  "no_finality = \<lparr>fv_available = False, fv_finalized_height = 0, fv_block_height = None, fv_finalized_slot = 0,
     fv_slot = 0, fv_lag = 0, fv_by_slot = False, fv_hashes = None\<rparr>"

definition or0 :: "int option \<Rightarrow> int" where
  "or0 v = (case v of None \<Rightarrow> 0 | Some x \<Rightarrow> x)"

text \<open>The view of two heads. Comparing an absent slot raises TypeError.\<close>

definition finality_view :: "block \<Rightarrow> block \<Rightarrow> finality res" where
  "finality_view fin head =
     (let by_height = (bk_height fin \<noteq> None \<and> bk_height head \<noteq> None);
          fh = (if by_height then bk_height fin else bk_slot fin);
          bh = (if by_height then bk_height head else bk_slot head)
      in case (fh, bh) of
           (Some f, Some b) \<Rightarrow> Inr \<lparr>fv_available = (0 < f), fv_finalized_height = f, fv_block_height = Some b,
              fv_finalized_slot = or0 (bk_slot fin), fv_slot = or0 (bk_slot head), fv_lag = max 0 (b - f),
              fv_by_slot = (\<not> by_height),
              fv_hashes = (case (bk_hash fin, bk_hash head) of (Some a, Some c) \<Rightarrow> Some (a, c) | _ \<Rightarrow> None)\<rparr>
         | _ \<Rightarrow> Inl TypeError)"

definition fetch_finality :: "env \<Rightarrow> time \<Rightarrow> finality dexm" where
  "fetch_finality E tnow =
     sbind (ask E (w_finalized E)) (\<lambda>fin. case fin of None \<Rightarrow> sret no_finality
       | Some f \<Rightarrow> sbind (ask E (w_head E)) (\<lambda>head. case head of None \<Rightarrow> sret no_finality
         | Some h \<Rightarrow> sbind (slift (finality_view f h)) (\<lambda>v.
             sthen (swhen (fv_available v) (supd (\<lambda>s. s\<lparr>d_fin_track := track_finality (fin_key_of f) tnow (d_fin_track s)\<rparr>)))
               (sret v))))"

definition refetch_finality :: "env \<Rightarrow> time \<Rightarrow> finality dexm" where
  "refetch_finality E tnow =
     sbind (stry (fetch_finality E tnow) (\<lambda>_. sret no_finality)) (\<lambda>v.
       sthen (supd (\<lambda>s. s\<lparr>d_fin_cache := Some (tnow, v)\<rparr>)) (sret v))"

definition read_finality :: "env \<Rightarrow> time option \<Rightarrow> finality dexm" where
  "read_finality E now =
     sbind (case now of None \<Rightarrow> py_time E | Some t \<Rightarrow> sret t) (\<lambda>tnow.
     sbind (sget d_fin_cache) (\<lambda>cache.
       case cache of
         Some (t, v) \<Rightarrow> if tnow - t < 2 then sret v else refetch_finality E tnow
       | None \<Rightarrow> refetch_finality E tnow))"

definition finality_advancing :: "env \<Rightarrow> time \<Rightarrow> bool dexm" where
  "finality_advancing E now =
     sbind (read_finality E (Some now)) (\<lambda>v.
       if \<not> fv_available v then sret False
       else sget (\<lambda>s. case ft_moved (d_fin_track s) of None \<Rightarrow> False
              | Some moved \<Rightarrow> now - moved \<le> of_int (c_finality_window_slots E * SLOT_SECS)))"

definition storage_final :: "env \<Rightarrow> bytes \<Rightarrow> bytes option dexm" where
  "storage_final E key =
     stry (sbind (ask E (\<lambda>t. w_read_final E t key)) (\<lambda>v. sret (Some v)))
       (\<lambda>e. case e of ChainUnsupported _ \<Rightarrow> sret None | _ \<Rightarrow> sraise e)"

section \<open>A concrete world\<close>

text \<open>An empty chain that answers every read and takes every submission, with a clock that advances one
  second per look; the defaults of the configuration. Examples change what they need.\<close>

definition calm_env :: env where
  "calm_env = \<lparr>c_enc_mode = False, c_have_nacl = False, c_require_sig = False, c_sweep = False, c_backpressure = True,
     c_reserve_buffer_kb = 8, c_rent_budget_kbs = 60, c_max_resting_secs = 86400, c_max_open_orders = 50,
     c_settle_hold_secs = None, c_settle_hold_slots = 25, c_finality_window_slots = 10, c_dead_confirm_secs = 4,
     c_zombie_watch_secs = 900, c_reg_retry_secs = 8, c_reg_giveup_secs = 240, c_reg_max_attempts = 20,
     c_round_gate_secs = 300, c_max_round_orders = 150, c_round_gas_budget = 800000000,
     w_time = of_nat, w_time_ns = (\<lambda>t. int t * 1000000000), w_token = (\<lambda>_. replicate 32 7),
     w_read = (\<lambda>_ _. Inr []), w_read_final = (\<lambda>_ _. Inr []), w_read_at = (\<lambda>_ _ _. Inr []),
     w_submit = (\<lambda>_ _. Inr \<lparr>rc_build_seconds = None, rc_send_seconds = None\<rparr>),
     w_head = (\<lambda>_. Inr None), w_finalized = (\<lambda>_. Inr None),
     w_service_info = (\<lambda>_. Inl (ChainUnsupported ''service_info'')),
     w_encrypt = (\<lambda>_ _ _ _. Inl (RuntimeError ''committee'')),
     w_committee_round = (\<lambda>_ _ _ _ _ _. Inl (RuntimeError ''committee'')),
     w_committee_setup = (\<lambda>_. Inl (RuntimeError ''committee'')),
     w_verify = (\<lambda>_ _ _. True), w_gov_sign = (\<lambda>_. []), w_busy = (\<lambda>_ _. False), w_arrive = (\<lambda>_. [])\<rparr>"

definition empty_dex :: dex where
  "empty_dex = \<lparr>d_tick = 0, d_uid = 0, d_pending = [], d_next_oid = 1000, d_expiry = [], d_fin_cache = None,
     d_fin_track = \<lparr>ft_key = None, ft_seen = 0, ft_moved = None\<rparr>, d_deposit_nonce = 0, d_cancel_watch = [],
     d_reg_pending = [], d_seal_drafts = [], d_round_gate = [], d_inflight = [], d_zombies = [], d_enc_cap = [],
     d_carry_retry = [], d_commit_seen = [], d_topup = \<lparr>tu_payload = None, tu_nonce = None, tu_sent = None\<rparr>,
     d_trades = [], d_last_cv = [], d_execs = [], d_ended = [], d_repriced = [], d_next_auction = 0,
     d_tel = \<lparr>t_orders = [], t_cleared = 0, t_missed = 0, t_writable = True, t_log = [], t_metrics = fresh_registry\<rparr>\<rparr>"

definition plain_order :: "nat \<Rightarrow> int \<Rightarrow> int \<Rightarrow> int \<Rightarrow> int \<Rightarrow> int \<Rightarrow> live_order" where
  "plain_order uid a oid side p q = \<lparr>o_account = a, o_oid = oid, o_side = side, o_price = p, o_qty = q,
     o_sealed = False, o_expiry = None, o_uid = uid, o_seq = oid, o_market = False, o_signed_price = p, o_pubkey = [],
     o_sig = [], o_commit = None, o_reveal = [], o_ciphertext = [], lo_address = [], lo_outcome = None, lo_reason = None\<rparr>"

end
