(* ===== verification/Server_Receipts.thy ===== *)
theory Server_Receipts
  imports Server_State
begin

text \<open>
  Round identity, receipts and the trade tape of \<^verbatim>\<open>src/offchain/server.py\<close>: how a round is named and
  recognised on chain, what a per-order receipt says, and which orders of a settled round get one.
\<close>

section \<open>Round identity\<close>

definition round_id :: "bytes \<Rightarrow> bytes" where
  "round_id payload = blake2s256 (ascii ''jamswap:v1:round'' @ payload)"

definition landed_slot :: "env \<Rightarrow> bytes \<Rightarrow> int option dexm" where
  "landed_slot E rid = sbind (storage E (ascii ''rl'' @ rid)) (\<lambda>v.
     sret (if 4 \<le> length v then Some (int (le_dec (take 4 v))) else None))"

definition landed_final :: "env \<Rightarrow> bytes \<Rightarrow> bool option dexm" where
  "landed_final E rid = sbind (storage_final E (ascii ''rl'' @ rid)) (\<lambda>v.
     sret (case v of None \<Rightarrow> None | Some b \<Rightarrow> Some (4 \<le> length b)))"

definition consumed_entry :: "env \<Rightarrow> live_order \<Rightarrow> bytes res" where
  "consumed_entry E od =
     bind_res (pack 4 (o_account od)) (\<lambda>a.
       Inr (commitment (if c_enc_mode E then o_ciphertext od else o_reveal od) @ a))"

definition set_entries :: "bytes \<Rightarrow> bytes list" where
  "set_entries raw = map (\<lambda>i. slice raw (i * SET_ENTRY_LEN) (i * SET_ENTRY_LEN + SET_ENTRY_LEN))
     [0..<length raw div SET_ENTRY_LEN]"

definition okey :: "live_order \<Rightarrow> incarnation" where
  "okey od = (o_account od, o_oid od, o_commit od)"

definition keys :: "round_rec \<Rightarrow> incarnation list" where
  "keys fr = map okey (rr_sealed fr @ rr_public fr)"

abbreviation tkey :: "int \<Rightarrow> 'a order_scheme \<Rightarrow> order_key" where
  "tkey m od \<equiv> (m, o_account od, o_oid od)"

definition parse_book :: "bytes \<Rightarrow> live_order list" where
  "parse_book raw = map (\<lambda>(a, oid, side, p, q). \<lparr>o_account = a, o_oid = oid, o_side = side, o_price = p, o_qty = q,
     o_sealed = False, o_expiry = None, o_uid = 0, o_seq = 0, o_market = False, o_signed_price = 0, o_pubkey = [],
     o_sig = [], o_commit = None, o_reveal = [], o_ciphertext = [], lo_address = [], lo_outcome = None,
     lo_reason = None\<rparr>) (book_rows raw)"

section \<open>Receipts\<close>

definition EXEC_HISTORY :: nat where "EXEC_HISTORY = 200"

definition TERMINAL_DISP :: "string list" where
  "TERMINAL_DISP = [''filled'', ''partial-cancelled'', ''cancelled'', ''rejected'']"

text \<open>The disposition of an order and its reason: decided upstream, or from the fill.\<close>

definition disposition :: "live_order \<Rightarrow> int \<Rightarrow> bool \<Rightarrow> string \<times> string option" where
  "disposition od filled sealed = (case lo_outcome od of
       Some d \<Rightarrow> (d, lo_reason od)
     | None \<Rightarrow>
         if o_qty od \<le> filled then (''filled'', lo_reason od)
         else if sealed then (if 0 < filled then ''partial-cancelled'' else ''cancelled'',
            (case lo_reason od of None \<Rightarrow> Some ''unfilled'' | Some r \<Rightarrow> Some (if r = [] then ''unfilled'' else r)))
         else (if 0 < filled then ''partial-resting'' else ''resting'', lo_reason od))"

definition add_exec :: "int \<Rightarrow> exec_rec \<Rightarrow> dex \<Rightarrow> dex" where
  "add_exec acct rec s = s\<lparr>d_execs := dset acct (push_bounded EXEC_HISTORY rec (dget_or (d_execs s) acct [])) (d_execs s)\<rparr>"

definition record_exec :: "env \<Rightarrow> int \<Rightarrow> live_order \<Rightarrow> int \<Rightarrow> int \<Rightarrow> bool \<Rightarrow> time \<Rightarrow> (bytes \<times> bool) option \<Rightarrow> unit dexm" where
  "record_exec E m od filled price sealed now landing =
     (let (d, reason) = disposition od filled sealed in
      sbind (read_finality E None) (\<lambda>fin.
      sthen (supd (add_exec (o_account od) \<lparr>ex_ts = now, ex_market = m, ex_side = o_side od, ex_price = disp price,
          ex_qty = disp (o_qty od), ex_filled = disp filled, ex_remainder = disp (o_qty od - filled), ex_disposition = d,
          ex_reason = reason, ex_oid = o_oid od,
          ex_settle_height = (if fv_available fin then fv_block_height fin else None),
          ex_round = (if 0 < filled then map_option fst landing else None),
          ex_final = (if 0 < filled then map_option snd landing else None)\<rparr>))
        (swhen (d \<in> set TERMINAL_DISP) (tel E (\<lambda>clk. terminal clk (tkey m od) d filled reason)))))"

definition crossed_price :: "clearing \<Rightarrow> live_order \<Rightarrow> bool" where
  "crossed_price c od = (if cl_volume c = 0 then False
     else if o_side od = BUY then cl_price c \<le> o_price od else o_price od \<le> cl_price c)"

definition rests :: "env \<Rightarrow> int \<Rightarrow> clearing \<Rightarrow> live_order \<Rightarrow> int \<Rightarrow> unit dexm" where
  "rests E m c od filled = sbind (sget (\<lambda>s. dget (d_expiry s) (tkey m od))) (\<lambda>x.
     tel E (\<lambda>clk. rested clk (tkey m od) (cl_price c) (crossed_price c od) filled x))"

definition record_submitted :: "env \<Rightarrow> int \<Rightarrow> clearing \<Rightarrow> int list \<Rightarrow> time \<Rightarrow> (bytes \<times> bool) option \<Rightarrow> live_order \<Rightarrow> unit dexm" where
  "record_submitted E m c reveal_ids now landing od =
     (let filled = fill_of (cl_fills c) (o_oid od);
          public_rest = (o_oid od \<notin> set reveal_ids \<and> filled < o_qty od)
      in sthen (swhen public_rest (rests E m c od filled))
          (swhen (\<not> (public_rest \<and> filled = 0))
             (record_exec E m od filled (cl_price c) (o_oid od \<in> set reveal_ids) now landing)))"

definition record_maker :: "env \<Rightarrow> int \<Rightarrow> clearing \<Rightarrow> time \<Rightarrow> (bytes \<times> bool) option \<Rightarrow> live_order \<Rightarrow> unit dexm" where
  "record_maker E m c now landing od =
     (let filled = fill_of (cl_fills c) (o_oid od) in
      sthen (swhen (filled < o_qty od \<and> (0 < filled \<or> crossed_price c od)) (rests E m c od filled))
        (swhen (0 < filled) (record_exec E m od filled (cl_price c) False now landing)))"

definition landing_of :: "env \<Rightarrow> bytes \<Rightarrow> (bytes \<times> bool) option dexm" where
  "landing_of E rid = sbind (stry (landed_final E rid) (\<lambda>_. sret (Some False))) (\<lambda>final.
     sret (map_option (\<lambda>f. (rid, f)) final))"

definition record_executions :: "env \<Rightarrow> int \<Rightarrow> live_order list \<Rightarrow> live_order list \<Rightarrow> live_order list \<Rightarrow> clearing \<Rightarrow> bytes \<Rightarrow> unit dexm" where
  "record_executions E m resting reveal public c rid =
     (if resting @ reveal @ public = [] then sret ()
      else sbind (landing_of E rid) (\<lambda>landing.
           sbind (py_time E) (\<lambda>now.
           sthen (siter (record_submitted E m c (map o_oid reveal) now landing) (reveal @ public))
             (siter (record_maker E m c now landing) resting))))"

text \<open>A receipt whose round was not final when it was written turns final once the marker is in the
  finalized state; one read per round. The receipts the trader sees are positions of the account's deque,
  newest first, and turn final in place, those before a failing read included.\<close>

definition LANDED_TTL_SLOTS :: int where "LANDED_TTL_SLOTS = 600"

definition awaits_final :: "time \<Rightarrow> exec_rec \<Rightarrow> bool" where
  "awaits_final now r \<longleftrightarrow> ex_final r = Some False \<and> (ex_round r \<noteq> None \<and> ex_round r \<noteq> Some []) \<and>
     now - ex_ts r < of_int (LANDED_TTL_SLOTS * SLOT_SECS)"

definition newest :: "nat \<Rightarrow> nat list" where
  "newest n = take 100 (rev [0..<n])"

definition make_final :: "int \<Rightarrow> nat \<Rightarrow> dex \<Rightarrow> dex" where
  "make_final acct i s = (let dq = dget_or (d_execs s) acct [] in
     s\<lparr>d_execs := dset acct (dq[i := (dq ! i)\<lparr>ex_final := Some True\<rparr>]) (d_execs s)\<rparr>)"

definition refresh_one :: "env \<Rightarrow> int \<Rightarrow> block option \<Rightarrow> nat \<times> exec_rec \<Rightarrow> (bytes, bool) dict \<Rightarrow> (bytes, bool) dict dexm" where
  "refresh_one E acct blk ir known = (let rid = the (ex_round (snd ir)) in
     sbind (case dget known rid of Some b \<Rightarrow> sret (b, known)
            | None \<Rightarrow> sbind (ask E (\<lambda>t. w_read_at E t blk (ascii ''rl'' @ rid)))
                       (\<lambda>v. sret (4 \<le> length v, dset rid (4 \<le> length v) known)))
       (\<lambda>(b, known'). sthen (swhen b (supd (make_final acct (fst ir)))) (sret known')))"

definition refresh_final :: "env \<Rightarrow> int \<Rightarrow> (nat \<times> exec_rec) list \<Rightarrow> unit dexm" where
  "refresh_final E acct recs =
     sbind (smap (\<lambda>ir. sbind (py_time E) (\<lambda>now. sret (awaits_final now (snd ir)))) recs) (\<lambda>aw.
       let todo = map fst (filter snd (zip recs aw)) in
       if todo = [] then sret ()
       else stry (sbind (ask E (w_finalized E)) (\<lambda>blk. sthen (sfold (refresh_one E acct blk) todo []) (sret ())))
            (\<lambda>_. sret ()))"

definition api_executions :: "env \<Rightarrow> int \<Rightarrow> exec_rec list dexm" where
  "api_executions E acct = sbind (sget (\<lambda>s. dget_or (d_execs s) acct [])) (\<lambda>dq.
     let ix = newest (length dq) in
     sthen (refresh_final E acct (map (\<lambda>i. (i, dq ! i)) ix))
       (sget (\<lambda>s. map (\<lambda>i. dget_or (d_execs s) acct [] ! i) ix)))"

section \<open>The trade tape\<close>

definition TRADE_HISTORY :: nat where "TRADE_HISTORY = 500"
definition TRADE_TTL :: time where "TRADE_TTL = 86400"

definition prune_trades :: "int \<Rightarrow> time \<Rightarrow> dex \<Rightarrow> dex" where
  "prune_trades m now s = (case dget (d_trades s) m of None \<Rightarrow> s
     | Some dq \<Rightarrow> s\<lparr>d_trades := dset m (dropWhile (\<lambda>t. tr_ts t < now - TRADE_TTL) dq) (d_trades s)\<rparr>)"

definition direction :: "trade_rec list \<Rightarrow> rat \<Rightarrow> string" where
  "direction dq price = (if dq = [] \<or> price = tr_price (last dq) then ''flat''
     else if tr_price (last dq) < price then ''up'' else ''down'')"

definition record_trade :: "env \<Rightarrow> int \<Rightarrow> unit dexm" where
  "record_trade E m = sbind (mstate E ''cv'' m) (\<lambda>cv. sbind (sget (\<lambda>s. dget (d_last_cv s) m)) (\<lambda>prev.
     case prev of
       None \<Rightarrow> supd (\<lambda>s. s\<lparr>d_last_cv := dset m cv (d_last_cv s)\<rparr>)
     | Some pv \<Rightarrow> if cv \<le> pv then sret ()
         else sbind (py_time E) (\<lambda>now. sbind (mstate E ''lp'' m) (\<lambda>lp.
              supd (\<lambda>s. let dq = dget_or (d_trades s) m [];
                          rec = \<lparr>tr_ts = now, tr_price = disp lp, tr_volume = disp (cv - pv), tr_dir = direction dq (disp lp)\<rparr>
                      in prune_trades m now (s\<lparr>d_trades := dset m (push_bounded TRADE_HISTORY rec dq) (d_trades s),
                                               d_last_cv := dset m cv (d_last_cv s)\<rparr>))))))"

record trades_view =
  tv_trades :: "trade_rec list"
  tv_last :: rat
  tv_volume :: rat
  tv_count :: nat
  tv_high :: "rat option"
  tv_low :: "rat option"

definition api_trades :: "env \<Rightarrow> int \<Rightarrow> trades_view dexm" where
  "api_trades E m = sbind (py_time E) (\<lambda>now. sthen (supd (prune_trades m now)) (
     sbind (sget (\<lambda>s. dget_or (d_trades s) m [])) (\<lambda>dq. sbind (mstate E ''lp'' m) (\<lambda>lp.
       let prices = map tr_price dq in
       sret \<lparr>tv_trades = take 100 (rev dq), tv_last = disp lp, tv_volume = round_to 4 (sum_list (map tr_volume dq)),
             tv_count = length dq, tv_high = (if prices = [] then None else Some (Max (set prices))),
             tv_low = (if prices = [] then None else Some (Min (set prices)))\<rparr>))))"

end
