(* ===== verification/Server_Rounds.thy ===== *)
theory Server_Rounds
  imports Server_Receipts
begin

text \<open>
  The life of a round after it was submitted, \<^verbatim>\<open>src/offchain/server.py\<close>: when its landing is durable, what
  finalizing it does (carrying sealed remainders, receipts, prunes), when it is dead, releasing it, and
  the released rounds (zombies) still watched for a late landing, with the claims they make on their
  orders. Python's \<^verbatim>\<open>fr is z\<close> is equality of \<open>rr_uid\<close>. In texts shown to users the em dash is written \<open>-\<close>.
\<close>

section \<open>Durability of a landing\<close>

definition MIN_CONFIRM_SECS :: time where "MIN_CONFIRM_SECS = 2"

definition settle_hold_secs :: "env \<Rightarrow> time option \<Rightarrow> time dexm" where
  "settle_hold_secs E now = (case c_settle_hold_secs E of
       Some h \<Rightarrow> sret h
     | None \<Rightarrow> sbind (case now of None \<Rightarrow> py_time E | Some t \<Rightarrow> sret t) (\<lambda>t.
         sbind (finality_advancing E t) (\<lambda>adv. sret (if adv then 0 else of_int (c_settle_hold_slots E * SLOT_SECS)))))"

definition confirmed :: "env \<Rightarrow> round_rec \<Rightarrow> time \<Rightarrow> bool dexm" where
  "confirmed E rec now =
     sbind (stry (sbind (landed_final E (rr_rid rec)) (\<lambda>f. sret (Some f))) (\<lambda>_. sret None)) (\<lambda>read.
       case read of
         None \<Rightarrow> sret False
       | Some (Some True) \<Rightarrow> sret True
       | Some final \<Rightarrow>
           sbind (if final = Some False \<and> c_settle_hold_secs E = None then finality_advancing E now else sret False) (\<lambda>wait.
             if wait then sret False
             else sbind (settle_hold_secs E (Some now)) (\<lambda>hold.
               case rr_ok_since rec of
                 None \<Rightarrow> sraise TypeError
               | Some since \<Rightarrow> sret (max hold MIN_CONFIRM_SECS \<le> now - since))))"

section \<open>Gas\<close>

definition GAS_SIGNED_ORDER :: nat where "GAS_SIGNED_ORDER = 5290000"
definition GAS_REVEAL :: nat where "GAS_REVEAL = 10100"
definition GAS_ENC_SHARE :: nat where "GAS_ENC_SHARE = 18700000"
definition DEFAULT_COMMITTEE_SIZE :: nat where "DEFAULT_COMMITTEE_SIZE = 2"

definition committee_size :: "env \<Rightarrow> nat dexm" where
  "committee_size E = sbind (storage E (ascii ''committee'')) (\<lambda>raw.
     sret (if raw = [] then DEFAULT_COMMITTEE_SIZE else max 1 (unat (hd raw))))"

definition order_gas :: "env \<Rightarrow> nat \<Rightarrow> live_order \<Rightarrow> nat" where
  "order_gas E committee_n od = (if \<not> o_sealed od then GAS_SIGNED_ORDER
     else if c_enc_mode E then committee_n * GAS_ENC_SHARE else GAS_REVEAL)"

section \<open>Sealing\<close>

text \<open>The order with its hiding material and commitment, \<^verbatim>\<open>o["commit"] = _seal_material(m, o)\<close>.\<close>

definition seal_material :: "env \<Rightarrow> int \<Rightarrow> live_order \<Rightarrow> live_order dexm" where
  "seal_material E m od =
     sbind (slift (order_bytes (o_account od) (o_oid od) (o_side od) (o_price od) (o_qty od))) (\<lambda>ob.
     sbind (peek (w_token E)) (\<lambda>nonce.
       if c_enc_mode E then sbind (ask E (\<lambda>t. w_encrypt E t m ob nonce)) (\<lambda>ct.
         sret (od\<lparr>o_ciphertext := ct, o_commit := Some (commitment ct)\<rparr>))
       else sret (od\<lparr>o_reveal := ob @ nonce, o_commit := Some (commitment (ob @ nonce))\<rparr>)))"

definition send_carry :: "env \<Rightarrow> int \<Rightarrow> live_order \<Rightarrow> receipt dexm" where
  "send_carry E m od =
     (if c_enc_mode E
      then sbind (slift (bind_res (pack 4 m) (\<lambda>mb. bind_res (pack 4 (o_account od)) (\<lambda>ab.
             Inr ([TAG_CARRY_ENC_COMMIT] @ mb @ o_ciphertext od @ ab))))) (\<lambda>p. submit E p None [])
      else sbind (slift (bind_res (packs [(4, m), (4, o_account od)]) (\<lambda>b.
             Inr ([TAG_CARRY_COMMIT] @ b @ the (o_commit od))))) (\<lambda>p. submit E p None []))"

text \<open>\<^verbatim>\<open>_post_carry_seal\<close>: never raises here; it gives what it raised, if anything, and the order as it
  leaves it (sealed once, whatever happens to the submission).\<close>

definition post_carry_seal :: "env \<Rightarrow> int \<Rightarrow> live_order \<Rightarrow> (exn option \<times> live_order) dexm" where
  "post_carry_seal E m od =
     sbind (stry (sbind (if o_commit od = None then seal_material E m od else sret od) (\<lambda>od'. sret (Inr od')))
              (\<lambda>e. sret (Inl e)))
       (\<lambda>sealed. case sealed of
           Inl e \<Rightarrow> sret (Some e, od)
         | Inr od' \<Rightarrow> stry (sthen (send_carry E m od') (sret (None, od'))) (\<lambda>e. sret (Some e, od')))"

section \<open>Carrying remainders\<close>

definition past :: "time option \<Rightarrow> time \<Rightarrow> bool" where
  "past x now \<longleftrightarrow> truthy x \<and> the x \<le> now"

definition expiry_of :: "int \<Rightarrow> live_order \<Rightarrow> dex \<Rightarrow> time option" where
  "expiry_of m od s = dget (d_expiry s) (tkey m od)"

definition drop_expiry :: "order_key \<Rightarrow> dex \<Rightarrow> dex" where
  "drop_expiry k s = s\<lparr>d_expiry := dpop k (d_expiry s)\<rparr>"

text \<open>The remainder of a revealed order as a new dict.\<close>

definition remainder :: "nat \<Rightarrow> live_order \<Rightarrow> int \<Rightarrow> live_order" where
  "remainder uid od rem = \<lparr>o_account = o_account od, o_oid = o_oid od, o_side = o_side od, o_price = o_price od,
     o_qty = rem, o_sealed = True, o_expiry = None, o_uid = uid, o_seq = 0, o_market = o_market od,
     o_signed_price = 0, o_pubkey = [], o_sig = [], o_commit = None, o_reveal = [], o_ciphertext = [],
     lo_address = lo_address od, lo_outcome = None, lo_reason = None\<rparr>"

definition fresh_uid :: "nat dexm" where
  "fresh_uid s = (Inr (d_uid s), s\<lparr>d_uid := d_uid s + 1\<rparr>)"

fun exn_name :: "exn \<Rightarrow> string" where
  "exn_name (ValueError _) = ''ValueError''"
| "exn_name OverflowError = ''OverflowError''"
| "exn_name StructError = ''error''"
| "exn_name IndexError = ''IndexError''"
| "exn_name KeyError = ''KeyError''"
| "exn_name TypeError = ''TypeError''"
| "exn_name (ChainError _) = ''ChainError''"
| "exn_name (ChainBusy _) = ''ChainBusy''"
| "exn_name (ChainUnsupported _) = ''ChainUnsupported''"
| "exn_name (Jip2Error _) = ''Jip2Error''"
| "exn_name OSError = ''OSError''"
| "exn_name (WebSocketError _) = ''WebSocketError''"
| "exn_name (DeployError _) = ''DeployError''"
| "exn_name (SetupError _) = ''SetupError''"
| "exn_name (RuntimeError _) = ''RuntimeError''"

fun is_busy :: "exn \<Rightarrow> bool" where
  "is_busy (ChainBusy _) = True"
| "is_busy _ = False"

definition retry_reason :: "exn \<Rightarrow> string" where
  "retry_reason e = (if is_busy e then ''re-seal queued (chain busy)'' else ''re-seal queued ('' @ exn_name e @ '')'')"

definition queue_retry :: "int \<Rightarrow> live_order \<Rightarrow> dex \<Rightarrow> dex" where
  "queue_retry m od s = s\<lparr>d_carry_retry := dset m (dget_or (d_carry_retry s) m [] @ [od]) (d_carry_retry s)\<rparr>"

definition carry_order :: "env \<Rightarrow> int \<Rightarrow> fills \<Rightarrow> time \<Rightarrow> live_order \<Rightarrow> live_order list \<times> live_order list
    \<Rightarrow> (live_order list \<times> live_order list) dexm" where
  "carry_order E m fills now od = (\<lambda>(stamped, carried).
     let filled = fill_of fills (o_oid od); rem = o_qty od - filled in
     if rem \<le> 0 then sret (stamped @ [od\<lparr>lo_outcome := Some ''filled''\<rparr>], carried)
     else sbind (sget (expiry_of m od)) (\<lambda>x.
       if past x now then
         sret (stamped @ [od\<lparr>lo_outcome := Some (if 0 < filled then ''partial-cancelled'' else ''cancelled''),
                            lo_reason := Some ''expired''\<rparr>], carried)
       else sbind fresh_uid (\<lambda>uid. sbind (post_carry_seal E m (remainder uid od rem)) (\<lambda>(err, r). case err of
           None \<Rightarrow> sret (stamped @ [if 0 < filled
               then od\<lparr>lo_outcome := Some ''partial-carried'',
                       lo_reason := Some (''filled '' @ show_num (disp filled) @ '', rest re-sealed & still working'')\<rparr>
               else od\<lparr>lo_outcome := Some ''carried'',
                       lo_reason := Some ''didn't cross this round - still working (hidden)''\<rparr>], carried @ [r])
         | Some e \<Rightarrow> sthen (supd (queue_retry m r))
             (sret (stamped @ [od\<lparr>lo_outcome := Some (if 0 < filled then ''partial-carried'' else ''carried''),
                                 lo_reason := Some (retry_reason e)\<rparr>], carried))))))"

text \<open>The stamped orders, and the remainders carried now (extended onto the mempool).\<close>

definition carry_sealed_remainders :: "env \<Rightarrow> int \<Rightarrow> live_order list \<Rightarrow> fills \<Rightarrow> time
    \<Rightarrow> (live_order list \<times> live_order list) dexm" where
  "carry_sealed_remainders E m sealed fills now =
     sbind (sfold (carry_order E m fills now) sealed ([], [])) (\<lambda>(stamped, carried).
       sthen (swhen (carried \<noteq> []) (supd (\<lambda>s. s\<lparr>d_pending := dset m (dget_or (d_pending s) m [] @ carried) (d_pending s)\<rparr>)))
         (sret (stamped, carried)))"

text \<open>The queued remainder is changed in place: \<open>touch_retry\<close> is the object in the retry list.\<close>

definition touch_retry :: "int \<Rightarrow> live_order \<Rightarrow> dex \<Rightarrow> dex" where
  "touch_retry m r s = s\<lparr>d_carry_retry := map (\<lambda>(k, rs). (k, if k = m then map (\<lambda>x. if o_uid x = o_uid r then r else x) rs else rs))
     (d_carry_retry s)\<rparr>"

definition drain_order :: "env \<Rightarrow> int \<Rightarrow> time \<Rightarrow> live_order \<Rightarrow> live_order list \<Rightarrow> live_order list dexm" where
  "drain_order E m now r keep =
     sbind (sget (expiry_of m r)) (\<lambda>x.
       if past x now then
         (let r' = r\<lparr>lo_outcome := Some ''cancelled'', lo_reason := Some ''expired-before-reseal''\<rparr> in
          sthen (supd (touch_retry m r')) (sbind (mstate E ''lp'' m) (\<lambda>lp.
            sthen (record_exec E m r' 0 lp True now None) (sret keep))))
       else sbind (post_carry_seal E m r) (\<lambda>(err, r'). sthen (supd (touch_retry m r')) (case err of
           Some _ \<Rightarrow> sret (keep @ [r'])
         | None \<Rightarrow> sthen (supd (\<lambda>s. s\<lparr>d_pending := enqueue m r' (d_pending s)\<rparr>)) (sret keep))))"

definition drain_market :: "env \<Rightarrow> time \<Rightarrow> int \<times> live_order list \<Rightarrow> unit dexm" where
  "drain_market E now mi = sbind (sfold (drain_order E (fst mi) now) (snd mi) []) (\<lambda>keep.
     supd (\<lambda>s. s\<lparr>d_carry_retry := (if keep = [] then dpop (fst mi) (d_carry_retry s)
                                  else dset (fst mi) keep (d_carry_retry s))\<rparr>))"

definition drain_carry_retry :: "env \<Rightarrow> time \<Rightarrow> unit dexm" where
  "drain_carry_retry E now = sbind (sget d_carry_retry) (siter (drain_market E now))"

section \<open>Finalizing\<close>

definition ZOMBIE_CAP :: nat where "ZOMBIE_CAP = 32"

abbreviation zombies :: "int \<Rightarrow> dex \<Rightarrow> round_rec list" where "zombies m s \<equiv> dget_or (d_zombies s) m []"
abbreviation pend :: "int \<Rightarrow> dex \<Rightarrow> live_order list" where "pend m s \<equiv> dget_or (d_pending s) m []"
abbreviation set_pend :: "int \<Rightarrow> live_order list \<Rightarrow> dex \<Rightarrow> dex" where
  "set_pend m os s \<equiv> s\<lparr>d_pending := dset m os (d_pending s)\<rparr>"

text \<open>\<^verbatim>\<open>_zombies[m] = zs\<close>, or dropping the market's entry when none is left.\<close>

definition set_zombies :: "int \<Rightarrow> round_rec list \<Rightarrow> dex \<Rightarrow> dex" where
  "set_zombies m zs s = s\<lparr>d_zombies := (if zs = [] then dpop m (d_zombies s) else dset m zs (d_zombies s))\<rparr>"

abbreviation encset :: bytes where "encset \<equiv> ascii ''encset''"

definition stage_seconds :: "int \<Rightarrow> string \<Rightarrow> time \<Rightarrow> unit dexm" where
  "stage_seconds m stage secs = mtr (observe ''jamswap_round_stage_seconds'' [(''market'', show_int m), (''stage'', stage)] secs)"

text \<open>An encrypt-until-batch round of this size landed: twice as many may ride again.\<close>

definition grow_enc_cap :: "env \<Rightarrow> int \<Rightarrow> round_rec \<Rightarrow> dex \<Rightarrow> dex" where
  "grow_enc_cap E m fr s = (case dget (d_enc_cap s) m of
       Some cap \<Rightarrow> if rr_set_key fr = encset \<and> rr_sealed fr \<noteq> [] then
           (let grown = max cap (2 * length (rr_sealed fr)) in
            s\<lparr>d_enc_cap := (if c_max_round_orders E \<le> grown then dpop m (d_enc_cap s) else dset m grown (d_enc_cap s))\<rparr>)
         else s
     | None \<Rightarrow> s)"

definition unclaimed :: "round_rec \<Rightarrow> live_order list \<Rightarrow> live_order list" where
  "unclaimed fr os = filter (\<lambda>od. dget (rr_claimed fr) (okey od) = None) os"

definition end_pruned :: "env \<Rightarrow> int \<Rightarrow> int \<times> int \<Rightarrow> unit dexm" where
  "end_pruned E m p = sthen (supd (drop_expiry (m, p))) (tel E (\<lambda>clk. terminal clk (m, p) ''expired'' 0 None))"

definition finalize_round :: "env \<Rightarrow> int \<Rightarrow> round_rec \<Rightarrow> unit dexm" where
  "finalize_round E m fr =
     sbind (py_time E) (\<lambda>now.
     sthen (supd (grow_enc_cap E m fr)) (
     sbind (carry_sealed_remainders E m (unclaimed fr (rr_sealed fr)) (cl_fills (rr_clearing fr)) now) (\<lambda>(sealed, carried).
     sthen (stry (record_executions E m (rr_resting fr) sealed (unclaimed fr (rr_public fr)) (rr_clearing fr) (rr_rid fr))
              (\<lambda>_. sret ())) (
     sthen (siter (end_pruned E m) (rr_pruned fr)) (
     sbind (py_time E) (\<lambda>t. stage_seconds m ''settled'' (t - rr_t fr)))))))"

section \<open>Dead rounds and their release\<close>

definition seq_floor :: "env \<Rightarrow> int \<Rightarrow> int dexm" where
  "seq_floor E acct = sbind (storage_at E ''sq'' [(4, acct)]) (\<lambda>v. sret (int (le_dec v)))"

fun floor_passed :: "env \<Rightarrow> (int \<times> int) list \<Rightarrow> string option dexm" where
  "floor_passed E [] = sret None"
| "floor_passed E ((a, s) # rest) = sbind (seq_floor E a) (\<lambda>fl. if s \<le> fl then sret (Some ''seq-floor'') else floor_passed E rest)"

text \<open>A read under a raw prefix and the market.\<close>

definition market_set :: "env \<Rightarrow> bytes \<Rightarrow> int \<Rightarrow> bytes dexm" where
  "market_set E prefix m = sbind (slift (pack 4 m)) (\<lambda>k. storage E (prefix @ k))"

definition round_dead :: "env \<Rightarrow> int \<Rightarrow> round_rec \<Rightarrow> string option dexm" where
  "round_dead E m fr =
     sbind (storage_at E ''book'' [(4, m)]) (\<lambda>book.
       if commitment book \<noteq> rr_book_hash fr then sret (Some ''book-moved'')
       else sbind (if rr_consumed fr = [] then sret False
                   else sbind (market_set E (rr_set_key fr) m) (\<lambda>raw.
                     sret (list_ex (\<lambda>e. e \<notin> set (set_entries raw)) (rr_consumed fr))))
         (\<lambda>gone. if gone then sret (Some ''commit-gone'') else floor_passed E (rr_minseq fr)))"

text \<open>The oldest unsighted zombie is forgotten while there are more than the cap.\<close>

fun drop_unsighted :: "round_rec list \<Rightarrow> round_rec list option" where
  "drop_unsighted [] = None"
| "drop_unsighted (z # zs) = (if rr_ok_since z = None then Some zs else map_option ((#) z) (drop_unsighted zs))"

lemma drop_unsighted_shorter: "drop_unsighted zs = Some zs' \<Longrightarrow> length zs' < length zs"
  by (induction zs arbitrary: zs') (auto split: if_splits)

function trim_zombies :: "round_rec list \<Rightarrow> round_rec list" where
  "trim_zombies zs = (if length zs \<le> ZOMBIE_CAP then zs
     else case drop_unsighted zs of None \<Rightarrow> zs | Some zs' \<Rightarrow> trim_zombies zs')"
  by pat_completeness auto

termination
  by (relation "measure length") (auto simp: drop_unsighted_shorter)

declare trim_zombies.simps [simp del]

definition requeue_tel :: "env \<Rightarrow> int \<Rightarrow> live_order \<Rightarrow> unit dexm" where
  "requeue_tel E m od = tel E (\<lambda>clk. requeued clk (tkey m od))"

text \<open>What follows putting the orders back: they are reported, the round is watched, a timeout cools the market
  down and halves its encrypted batch.\<close>

definition watch_released :: "env \<Rightarrow> int \<Rightarrow> round_rec \<Rightarrow> string \<Rightarrow> time \<Rightarrow> live_order list \<Rightarrow> unit dexm" where
  "watch_released E m fr why now orders =
      sthen (siter (requeue_tel E m) orders) (
      sthen (supd (\<lambda>s. s\<lparr>d_zombies := dset m (trim_zombies (zombies m s @
               [fr\<lparr>rr_abandoned_at := now, rr_why := why, rr_ok_since := None\<rparr>])) (d_zombies s)\<rparr>)) (
      sthen (swhen (why = ''timeout'') (supd (\<lambda>s. s\<lparr>d_round_gate := dset m now (d_round_gate s),
               d_enc_cap := (if rr_set_key fr = encset \<and> rr_sealed fr \<noteq> []
                             then dset m (max 1 (length (rr_sealed fr) div 2)) (d_enc_cap s) else d_enc_cap s)\<rparr>))) (
      mtr (inc ''jamswap_round_abandoned_total'' [(''market'', show_int m), (''reason'', why)] 1))))"

definition abandon :: "env \<Rightarrow> int \<Rightarrow> round_rec \<Rightarrow> string \<Rightarrow> time \<Rightarrow> unit dexm" where
  "abandon E m fr why now =
     (let orders = unclaimed fr (rr_sealed fr @ rr_public fr) in
      sthen (stage_seconds m ''abandoned'' (now - rr_t fr)) (
      sthen (supd (\<lambda>s. set_pend m (orders @ pend m s) s))
        (watch_released E m fr why now orders)))"

section \<open>Claims\<close>

definition records :: "int \<Rightarrow> dex \<Rightarrow> round_rec list" where
  "records m s = (case dget (d_inflight s) m of None \<Rightarrow> [] | Some fr \<Rightarrow> [fr]) @ zombies m s"

definition map_records :: "int \<Rightarrow> (round_rec \<Rightarrow> round_rec) \<Rightarrow> dex \<Rightarrow> dex" where
  "map_records m f s = s\<lparr>d_inflight := AList.map_ran (\<lambda>k fr. if k = m then f fr else fr) (d_inflight s),
     d_zombies := AList.map_ran (\<lambda>k zs. if k = m then map f zs else zs) (d_zombies s)\<rparr>"

definition note_claim :: "round_rec \<Rightarrow> round_rec \<Rightarrow> round_rec" where
  "note_claim z fr = (if rr_uid fr = rr_uid z then fr
     else fr\<lparr>rr_claimed := fold (\<lambda>k. dset k (rr_rid z)) (filter (\<lambda>k. k \<in> set (keys z)) (keys fr)) (rr_claimed fr)\<rparr>)"

definition claim :: "int \<Rightarrow> round_rec \<Rightarrow> dex \<Rightarrow> dex" where
  "claim m z s = map_records m (note_claim z)
     (set_pend m (filter (\<lambda>od. okey od \<notin> set (keys z)) (pend m s)) s)"

definition free_claim :: "round_rec \<Rightarrow> round_rec \<Rightarrow> round_rec" where
  "free_claim z fr = (if rr_uid fr = rr_uid z then fr
     else fr\<lparr>rr_claimed := filter (\<lambda>(k, r). r \<noteq> rr_rid z) (rr_claimed fr)\<rparr>)"

text \<open>The keys of the other rounds that may still settle them: the one in flight and the sighted ones.\<close>

definition busy_keys :: "int \<Rightarrow> round_rec \<Rightarrow> dex \<Rightarrow> incarnation list" where
  "busy_keys m z s = concat (map keys (filter (\<lambda>fr. rr_uid fr \<noteq> rr_uid z \<and>
     (map_option rr_uid (dget (d_inflight s) m) = Some (rr_uid fr) \<or> rr_ok_since fr \<noteq> None)) (records m s)))"

definition unclaim :: "int \<Rightarrow> round_rec \<Rightarrow> dex \<Rightarrow> dex" where
  "unclaim m z s =
     (let busy = set (busy_keys m z s) \<union> set (map okey (pend m s));
          back = filter (\<lambda>od. okey od \<notin> busy) (rr_sealed z @ rr_public z)
      in map_records m (free_claim z) (set_pend m (back @ pend m s) s))"

section \<open>The resolver's two judgements\<close>

fun rival_among :: "env \<Rightarrow> round_rec \<Rightarrow> round_rec list \<Rightarrow> bool dexm" where
  "rival_among E fr [] = sret False"
| "rival_among E fr (other # rest) =
     (if rr_uid other \<noteq> rr_uid fr \<and> set (keys other) \<inter> set (keys fr) \<noteq> {}
      then sbind (landed_slot E (rr_rid other)) (\<lambda>slot. if slot \<noteq> None then sret True else rival_among E fr rest)
      else rival_among E fr rest)"

definition rival_landed :: "env \<Rightarrow> int \<Rightarrow> round_rec \<Rightarrow> bool dexm" where
  "rival_landed E m fr = sbind (sget (records m)) (rival_among E fr)"

definition revert_tel :: "env \<Rightarrow> int \<Rightarrow> round_rec \<Rightarrow> unit dexm" where
  "revert_tel E m fr =
     sthen (mtr (inc ''jamswap_settle_reverted_total'' [(''market'', show_int m)] 1))
       (siter (\<lambda>od. tel E (\<lambda>clk. reverted clk (tkey m od))) (rr_sealed fr @ rr_public fr))"

text \<open>A field of the released round \<open>z\<close> is assigned.\<close>

definition set_zombie :: "int \<Rightarrow> round_rec \<Rightarrow> (round_rec \<Rightarrow> round_rec) \<Rightarrow> dex \<Rightarrow> dex" where
  "set_zombie m z f s = s\<lparr>d_zombies := AList.map_ran (\<lambda>k zs. if k = m then map (\<lambda>y. if y = z then f y else y) zs else zs)
     (d_zombies s)\<rparr>"

text \<open>One zombie of a sweep, as it stands now (an earlier one may have claimed from it). The
  accumulator holds the keys taken and the uids to keep watching; \<open>act_zombie\<close> is what follows the read
  of its marker (\<open>None\<close>: the read failed).\<close>

definition act_zombie :: "env \<Rightarrow> int \<Rightarrow> time \<Rightarrow> round_rec \<Rightarrow> incarnation list \<times> nat list \<Rightarrow> int option option
    \<Rightarrow> (incarnation list \<times> nat list) dexm" where
  "act_zombie E m now z = (\<lambda>(taken, keep) read.
     let watched = (taken, keep @ [rr_uid z]) in
     case read of
       None \<Rightarrow> sret watched
     | Some (Some slot) \<Rightarrow>
         if rr_ok_since z = None then
           sthen (supd (set_zombie m z (\<lambda>z. z\<lparr>rr_ok_since := Some now\<rparr>)))
          (sthen (supd (claim m z))
          (sthen (mtr (inc ''jamswap_round_late_landed_total'' [(''market'', show_int m)] 1))
            (sret (taken @ keys z, keep @ [rr_uid z]))))
         else sbind (confirmed E z now) (\<lambda>ok.
              sbind (if ok then rival_landed E m z else sret True) (\<lambda>rival.
                if rival then sret watched
                else sthen (stry (finalize_round E m z) (\<lambda>_. sret ())) (sret (taken, keep))))
     | Some None \<Rightarrow>
         if rr_ok_since z \<noteq> None then
           sthen (supd (set_zombie m z (\<lambda>z. z\<lparr>rr_ok_since := None\<rparr>)))
          (sthen (supd (unclaim m z)) (sthen (revert_tel E m z) (sret watched)))
         else sret watched)"

definition try_slot :: "env \<Rightarrow> round_rec \<Rightarrow> int option option dexm" where
  "try_slot E z = stry (sbind (landed_slot E (rr_rid z)) (\<lambda>sl. sret (Some sl))) (\<lambda>_. sret None)"

definition judge_zombie :: "env \<Rightarrow> int \<Rightarrow> time \<Rightarrow> incarnation list \<times> nat list \<Rightarrow> round_rec \<Rightarrow> (incarnation list \<times> nat list) dexm" where
  "judge_zombie E m now acc z =
     (if rr_ok_since z = None \<and> c_zombie_watch_secs E < now - rr_abandoned_at z then sret acc
      else sbind (try_slot E z) (act_zombie E m now z acc))"

definition judge_uid :: "env \<Rightarrow> int \<Rightarrow> time \<Rightarrow> nat \<Rightarrow> incarnation list \<times> nat list \<Rightarrow> (incarnation list \<times> nat list) dexm" where
  "judge_uid E m now u acc = sbind (sget (\<lambda>s. find (\<lambda>z. rr_uid z = u) (zombies m s)))
     (\<lambda>z. case z of None \<Rightarrow> sret acc | Some z \<Rightarrow> judge_zombie E m now acc z)"

definition resolve_zombies :: "env \<Rightarrow> time \<Rightarrow> int \<Rightarrow> incarnation list dexm" where
  "resolve_zombies E now m =
     sbind (sget (\<lambda>s. map rr_uid (zombies m s))) (\<lambda>us.
     sbind (sfold (judge_uid E m now) us ([], [])) (\<lambda>(taken, keep).
     sthen (supd (\<lambda>s. set_zombies m (filter (\<lambda>z. rr_uid z \<in> set keep) (zombies m s)) s)) (sret taken)))"

definition set_inflight :: "int \<Rightarrow> round_rec \<Rightarrow> dex \<Rightarrow> dex" where
  "set_inflight m fr s = s\<lparr>d_inflight := dset m fr (d_inflight s)\<rparr>"

definition pop_inflight :: "int \<Rightarrow> dex \<Rightarrow> dex" where
  "pop_inflight m s = s\<lparr>d_inflight := dpop m (d_inflight s)\<rparr>"

text \<open>The two reads every judgement starts with.\<close>

definition read_fate :: "env \<Rightarrow> int \<Rightarrow> round_rec \<Rightarrow> (string option \<times> int option) option dexm" where
  "read_fate E m fr = stry (sbind (round_dead E m fr) (\<lambda>why. sbind (landed_slot E (rr_rid fr)) (\<lambda>slot. sret (Some (why, slot)))))
     (\<lambda>_. sret None)"

text \<open>What the judgement does with what it read.\<close>

definition act_on_fate :: "env \<Rightarrow> int \<Rightarrow> round_rec \<Rightarrow> time \<Rightarrow> (string option \<times> int option) option \<Rightarrow> unit dexm" where
  "act_on_fate E m fr now read = (case read of
         None \<Rightarrow> sret ()
       | Some (why, Some slot) \<Rightarrow>
           (let fr1 = fr\<lparr>rr_dead_since := None\<rparr> in
            if rr_ok_since fr = None then
              sthen (supd (set_inflight m (fr1\<lparr>rr_ok_since := Some now\<rparr>))) (stage_seconds m ''landed'' (now - rr_t fr))
            else sthen (supd (set_inflight m fr1)) (sbind (confirmed E fr1 now) (\<lambda>ok.
                 sbind (if ok then rival_landed E m fr1 else sret True) (\<lambda>rival.
                   if rival then sret ()
                   else sthen (supd (pop_inflight m)) (stry (finalize_round E m fr1) (\<lambda>_. sret ()))))))
       | Some (why, None) \<Rightarrow>
           if rr_ok_since fr \<noteq> None then
             sthen (supd (set_inflight m (fr\<lparr>rr_ok_since := None\<rparr>))) (revert_tel E m fr)
           else (case why of
               Some w \<Rightarrow>
                 (let since = (case rr_dead_since fr of Some t \<Rightarrow> t | None \<Rightarrow> now); fr1 = fr\<lparr>rr_dead_since := Some since\<rparr> in
                  sthen (supd (set_inflight m fr1))
                    (swhen (c_dead_confirm_secs E \<le> now - since) (sthen (supd (pop_inflight m)) (abandon E m fr1 w now))))
             | None \<Rightarrow>
                 (let fr1 = fr\<lparr>rr_dead_since := None\<rparr> in
                  sthen (supd (set_inflight m fr1))
                    (swhen (c_round_gate_secs E < now - rr_t fr) (sthen (supd (pop_inflight m)) (abandon E m fr1 ''timeout'' now))))))"

definition resolve_inflight :: "env \<Rightarrow> int \<Rightarrow> round_rec \<Rightarrow> time \<Rightarrow> unit dexm" where
  "resolve_inflight E m fr now = sbind (read_fate E m fr) (act_on_fate E m fr now)"

end
