(* ===== verification/Server_Build.thy ===== *)
theory Server_Build
  imports Server_Rounds
begin

text \<open>
  Building a round, \<^verbatim>\<open>_build_round\<close> and \<^verbatim>\<open>_assemble_round\<close> of \<^verbatim>\<open>src/offchain/server.py\<close>: the gates, the
  reads, the readiness of sealed orders, the plan, taking the orders out of the mempool, pricing and the
  sequence discipline, the payload, registering the round in flight and submitting it. Every read and
  the submission may fail; every failure path of the source is a path here.
\<close>

section \<open>Wire format\<close>

definition signed_order_bytes :: "live_order \<Rightarrow> bytes res" where
  "signed_order_bytes od =
     bind_res (order_bytes (o_account od) (o_oid od) (o_side od) (o_price od) (o_qty od)) (\<lambda>ob.
     bind_res (packs [(4, o_signed_price od), (8, o_seq od)]) (\<lambda>tl.
       Inr (ob @ [if o_market od then FLAG_MARKET else 0] @ tl @ o_pubkey od @ o_sig od)))"

definition public_section_bytes :: "live_order list \<Rightarrow> (int \<times> int) list \<Rightarrow> bytes \<Rightarrow> bytes res" where
  "public_section_bytes public pruned raw_book =
     bind_res (pack 2 (int (length public))) (\<lambda>ns.
     bind_res (map_res signed_order_bytes public) (\<lambda>os.
     bind_res (pack 2 (int (length pruned))) (\<lambda>np.
     bind_res (map_res (\<lambda>(a, oid). packs [(4, a), (4, oid)]) pruned) (\<lambda>ps.
       Inr (ns @ concat os @ np @ concat ps @ raw_book)))))"

section \<open>Readiness\<close>

definition expired_pairs :: "env \<Rightarrow> int \<Rightarrow> bytes \<Rightarrow> (int \<times> int) list dexm" where
  "expired_pairs E m rest_bytes = sbind (py_time E) (\<lambda>now. sget (\<lambda>s.
     map (\<lambda>(a, oid, _). (a, oid)) (filter (\<lambda>(a, oid, _). past (dget (d_expiry s) (m, a, oid)) now) (book_rows rest_bytes))))"

text \<open>The heights at which the commits now on chain were first seen.\<close>

definition pin_seen :: "bytes list \<Rightarrow> int option \<Rightarrow> (bytes, int) dict \<Rightarrow> (bytes, int) dict" where
  "pin_seen commit_entries bh seen =
     filter (\<lambda>(e, _). e \<in> set commit_entries)
       (case bh of None \<Rightarrow> seen
        | Some h \<Rightarrow> fold (\<lambda>e d. if dget d e = None then dset e h d else d) commit_entries seen)"

text \<open>May the order with this set entry be revealed? With the entries at the finalized head, or by the
  height rule.\<close>

definition entry_ready :: "bytes list \<Rightarrow> bytes list option \<Rightarrow> finality \<Rightarrow> (bytes, int) dict \<Rightarrow> bytes \<Rightarrow> bool" where
  "entry_ready commit_entries final_entries fin seen e = (case final_entries of
       Some fs \<Rightarrow> e \<in> set commit_entries \<and> e \<in> set fs
     | None \<Rightarrow> e \<in> set commit_entries \<and>
         (if \<not> fv_available fin then True
          else case dget seen e of None \<Rightarrow> False | Some h \<Rightarrow> h \<le> fv_finalized_height fin))"

definition sealed_ready_predicate :: "env \<Rightarrow> int \<Rightarrow> bytes list \<Rightarrow> finality \<Rightarrow> bytes list option \<Rightarrow> (live_order \<Rightarrow> bool res) dexm" where
  "sealed_ready_predicate E m commit_entries fin final_entries =
     sthen (swhen (final_entries = None)
              (supd (\<lambda>s. s\<lparr>d_commit_seen := dset m (pin_seen commit_entries (fv_block_height fin)
                       (dget_or (d_commit_seen s) m [])) (d_commit_seen s)\<rparr>)))
       (sget (\<lambda>s od. bind_res (consumed_entry E od) (\<lambda>e.
          Inr (entry_ready commit_entries final_entries fin (dget_or (d_commit_seen s) m []) e))))"

section \<open>Taking orders out of the mempool\<close>

definition set_key_of :: "env \<Rightarrow> bytes" where
  "set_key_of E = (if c_enc_mode E then encset else ascii ''commits'')"

definition fit :: "env \<Rightarrow> int \<Rightarrow> nat \<Rightarrow> dex \<Rightarrow> live_order list \<Rightarrow> live_order list \<times> live_order list" where
  "fit E m committee_n s orders = cap_batch orders (c_max_round_orders E) (Some (order_gas E committee_n))
     (c_round_gas_budget E) (if c_enc_mode E then dget (d_enc_cap s) m else None)"

definition attach_expiry :: "int \<Rightarrow> dex \<Rightarrow> live_order \<Rightarrow> live_order" where
  "attach_expiry m s od = od\<lparr>o_expiry := expiry_of m od s\<rparr>"

text \<open>The critical section: plan the round over the mempool and leave in it only the orders that wait.
  The readiness predicate is asked of every sealed order; a raise leaves the mempool as it is.\<close>

definition take_orders :: "env \<Rightarrow> int \<Rightarrow> time \<Rightarrow> bytes \<Rightarrow> (int \<times> int) list \<Rightarrow> (live_order \<Rightarrow> bool res) \<Rightarrow> nat
    \<Rightarrow> (live_order list \<times> live_order list \<times> live_order round_plan) dexm" where
  "take_orders E m now raw pruned ready committee_n =
     sthen (supd (\<lambda>s. if dget (d_pending s) m = None then s else set_pend m (map (attach_expiry m s) (pend m s)) s)) (
     sbind (sget (pend m)) (\<lambda>pend_all.
     sbind (slift (map_res (\<lambda>od. bind_res (ready od) (\<lambda>b. Inr (o_uid od, b))) (filter o_sealed pend_all))) (\<lambda>oks.
     sbind (sget (\<lambda>s. fit E m committee_n s)) (\<lambda>fit_m.
       let resting = filter (\<lambda>od. (o_account od, o_oid od) \<notin> set pruned) (parse_book raw);
           plan = plan_batch pend_all resting fit_m now (Some (\<lambda>od. dget oks (o_uid od) = Some True));
           wait = uids (rp_carry plan @ rp_deferred plan @ rp_overflow plan)
       in sthen (supd (set_pend m (filter (\<lambda>od. o_uid od \<in> wait) pend_all))) (sret (pend_all, resting, plan))))))"

definition note_ended :: "incarnation \<Rightarrow> dex \<Rightarrow> dex" where
  "note_ended k s = s\<lparr>d_ended := k # d_ended s\<rparr>"

definition end_expired :: "env \<Rightarrow> int \<Rightarrow> live_order \<Rightarrow> unit dexm" where
  "end_expired E m od = sthen (tel E (\<lambda>clk. terminal clk (tkey m od) ''expired'' 0 None))
     (sthen (supd (drop_expiry (tkey m od))) (supd (note_ended (okey od))))"

definition reprice :: "(nat, int) dict \<Rightarrow> live_order \<Rightarrow> live_order" where
  "reprice d od = (case dget d (o_uid od) of None \<Rightarrow> od | Some p \<Rightarrow> od\<lparr>o_price := p\<rparr>)"

definition requeue_unsent :: "int \<Rightarrow> live_order list \<Rightarrow> dex \<Rightarrow> dex" where
  "requeue_unsent m taken s =
     (let skip = set (d_ended s) \<union> set (concat (map keys (filter (\<lambda>z. rr_ok_since z \<noteq> None) (zombies m s))))
                 \<union> set (map okey (pend m s));
          back = filter (\<lambda>od. okey od \<notin> skip) (map (reprice (d_repriced s)) taken)
      in set_pend m (back @ pend m s) s)"

section \<open>Assembling the round\<close>

datatype round_reply =
    Gated string
  | Idle rat rat "book_entry list" nat nat
  | Backpressure nat
  | Queued nat nat nat nat

fun reason_text :: "dead_reason \<Rightarrow> string" where
  "reason_text (Superseded fl sq) = ''superseded: account seq floor (floor '' @ show_int fl @ '' >= order seq '' @ show_int sq @ '')''"
| "reason_text (DuplicateSeq sq) = ''duplicate: another order of this account carries seq '' @ show_int sq"
| "reason_text NoLastPrice = ''market order: the market has no last price to bound it''"

definition defer_order :: "env \<Rightarrow> int \<Rightarrow> bytes list \<Rightarrow> live_order \<Rightarrow> unit dexm" where
  "defer_order E m commit_entries od = sbind (slift (consumed_entry E od)) (\<lambda>e.
     tel E (\<lambda>clk. deferred clk (tkey m od) (if e \<in> set commit_entries then ''awaiting-finality'' else ''commit-not-onchain'')))"

definition price_public :: "env \<Rightarrow> int \<Rightarrow> live_order list \<Rightarrow> (live_order list \<times> (live_order \<times> dead_reason) list) dexm" where
  "price_public E m public =
     sbind (if list_ex o_market public then mstate E ''lp'' m else sret 0) (\<lambda>lp.
     sbind (slift (price_market_orders (Inr lp) public)) (\<lambda>(priced, dead).
     sthen (supd (\<lambda>s. s\<lparr>d_repriced := map (\<lambda>od. (o_uid od, o_price od)) (filter o_market priced) @ d_repriced s\<rparr>))
       (sret (priced, dead))))"

text \<open>The floor of every account of the round, read once each, in the order the sorted round meets them.\<close>

definition read_floors :: "env \<Rightarrow> live_order list \<Rightarrow> (int, int) dict dexm" where
  "read_floors E public = sfold (\<lambda>a d. sbind (seq_floor E a) (\<lambda>f. sret (dset a f d)))
     (remdups_adj (sort (map o_account public))) []"

definition sanitize :: "env \<Rightarrow> live_order list \<Rightarrow> (live_order list \<times> (live_order \<times> dead_reason) list) dexm" where
  "sanitize E public = sbind (read_floors E public) (\<lambda>floors.
     sbind (slift (seq_sanitize (\<lambda>a. Inr (dget_or floors a 0)) public)) (\<lambda>(kept, dead, _). sret (kept, dead)))"

definition end_dead :: "env \<Rightarrow> int \<Rightarrow> time \<Rightarrow> live_order \<times> dead_reason \<Rightarrow> unit dexm" where
  "end_dead E m now d = (let od = fst d in
     sthen (record_exec E m (od\<lparr>lo_outcome := Some ''rejected'', lo_reason := Some (reason_text (snd d))\<rparr>) 0 (o_price od) False now None)
       (sthen (supd (drop_expiry (tkey m od))) (supd (note_ended (okey od)))))"

text \<open>A sealed order left with no counterparty goes back to the front of the queue, still hidden.\<close>

definition keep_crossing :: "int \<Rightarrow> time \<Rightarrow> live_order list \<Rightarrow> live_order list \<Rightarrow> live_order list \<Rightarrow> live_order list dexm" where
  "keep_crossing m now sealed public resting =
     (if sealed = [] then sret []
      else let kept = rp_reveal (plan_round (sealed @ public) resting now None) in
        if length kept < length sealed then
          sthen (supd (\<lambda>s. set_pend m (filter (\<lambda>od. o_uid od \<notin> uids kept) sealed @ pend m s) s)) (sret kept)
        else sret sealed)"

definition round_payload :: "env \<Rightarrow> int \<Rightarrow> int \<Rightarrow> int \<Rightarrow> bytes \<Rightarrow> bytes \<Rightarrow> live_order list \<Rightarrow> bytes dexm" where
  "round_payload E m base quote hdr sec sealed =
     (if sealed \<noteq> [] \<and> c_enc_mode E then ask E (\<lambda>t. w_committee_round E t m base quote sec (map o_ciphertext sealed))
      else if sealed \<noteq> [] then
        (let commits = concat (map (\<lambda>od. commitment (o_reveal od)) sealed); reveals = concat (map o_reveal sealed) in
         slift (bind_res (pack 4 (int (length commits))) (\<lambda>lc. bind_res (pack 4 (int (length reveals))) (\<lambda>lr.
           Inr ([TAG_REVEAL] @ hdr @ lc @ commits @ lr @ reveals @ sec)))))
      else sret ([TAG_SMATCH] @ hdr @ sec))"

definition min_seqs :: "live_order list \<Rightarrow> (int, int) dict" where
  "min_seqs public = fold (\<lambda>od d. dset (o_account od) (min (dget_or d (o_account od) (o_seq od)) (o_seq od)) d) public []"

definition cool_down :: "env \<Rightarrow> int \<Rightarrow> unit dexm" where
  "cool_down E m = sbind (py_time E) (\<lambda>t. supd (\<lambda>s. s\<lparr>d_round_gate := dset m t (d_round_gate s)\<rparr>))"

type_synonym assembled = "(round_rec \<times> bytes \<times> string) + round_reply"

definition idle_reply :: "env \<Rightarrow> int \<Rightarrow> live_order round_plan \<Rightarrow> assembled dexm" where
  "idle_reply E m plan = sbind (mstate E ''lp'' m) (\<lambda>lp. sbind (mstate E ''cv'' m) (\<lambda>cv. sbind (book_of E m) (\<lambda>bk.
     sret (Inr (Idle (disp lp) (disp cv) bk (length (rp_carry plan)) (length (rp_expired plan)))))))"

definition round_detail :: "int \<Rightarrow> nat \<Rightarrow> nat \<Rightarrow> int \<Rightarrow> string" where
  "round_detail m ns np vol = ''market '' @ show_int m @ '': '' @ show_nat ns @ '' sealed + '' @ show_nat np @
     '' public, vol '' @ show_num (disp vol)"

text \<open>The orders that ride are known: clear them, build the payload and the in-flight record.\<close>

definition build_record :: "env \<Rightarrow> int \<Rightarrow> int \<Rightarrow> int \<Rightarrow> bytes \<Rightarrow> (int \<times> int) list \<Rightarrow> live_order list \<Rightarrow> bytes \<Rightarrow> live_order list
    \<Rightarrow> live_order list \<Rightarrow> assembled dexm" where
  "build_record E m base quote raw pruned resting set_key sealed public =
     sbind (slift (packs [(4, m), (4, base), (4, quote)])) (\<lambda>hdr.
     sbind (slift (public_section_bytes public pruned raw)) (\<lambda>sec.
       let combined = resting @ sealed @ public;
           clearing = (if combined = [] then \<lparr>cl_price = 0, cl_volume = 0, cl_fills = Map.empty\<rparr> else clear combined)
       in sbind (stry (round_payload E m base quote hdr sec sealed) (\<lambda>e. sthen (cool_down E m) (sraise e))) (\<lambda>payload.
          sbind (py_time E) (\<lambda>t.
          sbind (slift (map_res (consumed_entry E) sealed)) (\<lambda>consumed.
          sbind fresh_uid (\<lambda>uid.
          sthen (mtr (observe ''jamswap_round_orders'' [(''market'', show_int m)] (of_nat (length sealed + length public))))
            (sret (Inl (\<lparr>rr_uid = uid, rr_t = t, rr_sealed = sealed, rr_public = public, rr_resting = resting,
               rr_clearing = clearing, rr_pruned = pruned, rr_rid = round_id payload, rr_book_hash = commitment raw,
               rr_consumed = consumed, rr_set_key = set_key, rr_minseq = min_seqs public, rr_claimed = [],
               rr_ok_since = None, rr_dead_since = None, rr_abandoned_at = 0, rr_why = []\<rparr>,
               payload, round_detail m (length sealed) (length public) (cl_volume clearing))))))))))"

text \<open>The tail of the assembly, once the dead orders are ended.\<close>

definition finish_round :: "env \<Rightarrow> int \<Rightarrow> int \<Rightarrow> int \<Rightarrow> time \<Rightarrow> bytes \<Rightarrow> (int \<times> int) list \<Rightarrow> live_order round_plan
    \<Rightarrow> live_order list \<Rightarrow> bytes \<Rightarrow> live_order list \<Rightarrow> live_order list \<Rightarrow> assembled dexm" where
  "finish_round E m base quote now raw pruned plan resting set_key sealed public =
     sbind (keep_crossing m now sealed public resting) (\<lambda>sealed'.
       if sealed' = [] \<and> public = [] \<and> pruned = [] then idle_reply E m plan
       else build_record E m base quote raw pruned resting set_key sealed' public)"

text \<open>A second look at the released rounds, when there are any: the keys they claim.\<close>

definition late_claims :: "env \<Rightarrow> int \<Rightarrow> incarnation list dexm" where
  "late_claims E m = sbind (sget (zombies m)) (\<lambda>zs.
     if zs = [] then sret [] else sbind (py_time E) (\<lambda>t. resolve_zombies E t m))"

definition assemble_round :: "env \<Rightarrow> int \<Rightarrow> int \<Rightarrow> int \<Rightarrow> time \<Rightarrow> bytes \<Rightarrow> (int \<times> int) list \<Rightarrow> live_order round_plan
    \<Rightarrow> live_order list \<Rightarrow> bytes list \<Rightarrow> bytes \<Rightarrow> assembled dexm" where
  "assemble_round E m base quote now raw pruned plan resting commit_entries set_key =
     sthen (siter (defer_order E m commit_entries) (rp_deferred plan)) (
     sbind (price_public E m (rp_public plan)) (\<lambda>(priced, unpriced).
     sbind (sanitize E priced) (\<lambda>(kept, stale).
     sbind (late_claims E m) (\<lambda>claimed.
       let free = (\<lambda>od. okey od \<notin> set claimed) in
       sthen (siter (end_dead E m now) (filter (\<lambda>d. free (fst d)) (unpriced @ stale)))
         (finish_round E m base quote now raw pruned plan resting set_key (filter free (rp_reveal plan)) (filter free kept))))))"

section \<open>Building and submitting\<close>

definition ROUND_ZEROFILL_SECS :: time where "ROUND_ZEROFILL_SECS = 30"

text \<open>The submission of a registered round and what follows it.\<close>

definition drop_same_round :: "int \<Rightarrow> bytes \<Rightarrow> dex \<Rightarrow> dex" where
  "drop_same_round m rid s = set_zombies m (filter (\<lambda>z. rr_rid z \<noteq> rid \<or> rr_ok_since z \<noteq> None) (zombies m s)) s"

definition refuse_round :: "env \<Rightarrow> int \<Rightarrow> round_rec \<Rightarrow> unit dexm" where
  "refuse_round E m rec =
     sthen (supd (pop_inflight m))
    (sthen (supd (\<lambda>s. set_pend m (rr_sealed rec @ rr_public rec @ pend m s) s)) (cool_down E m))"

definition submit_round :: "env \<Rightarrow> int \<Rightarrow> live_order round_plan \<Rightarrow> round_rec \<times> bytes \<times> string \<Rightarrow> round_reply dexm" where
  "submit_round E m plan = (\<lambda>(rec, payload, detail).
     sthen (supd (set_inflight m rec)) (
     sbind (stry (sthen (submit E payload (Some (Round_landed (rr_rid rec))) detail) (sret True))
              (\<lambda>e. if is_busy e then sthen (refuse_round E m rec) (sret False) else sret True)) (\<lambda>sent.
       if \<not> sent then sret (Backpressure (length (rr_sealed rec) + length (rr_public rec)))
       else sthen (supd (drop_same_round m (rr_rid rec))) (
            sthen (siter (\<lambda>od. tel E (\<lambda>clk. rounded clk (tkey m od))) (rr_sealed rec @ rr_public rec))
              (sret (Queued (length (rr_sealed rec)) (length (rr_public rec)) (length (rp_carry plan)) (length (rp_expired plan))))))))"

text \<open>From the taken orders to a registered round: any raise puts back every order still owned.\<close>

definition round_of_plan :: "env \<Rightarrow> int \<Rightarrow> int \<Rightarrow> int \<Rightarrow> time \<Rightarrow> bytes \<Rightarrow> (int \<times> int) list \<Rightarrow> bytes list \<Rightarrow> bytes
    \<Rightarrow> live_order list \<times> live_order list \<times> live_order round_plan \<Rightarrow> round_reply dexm" where
  "round_of_plan E m base quote now raw pruned commit_entries set_key = (\<lambda>(pend_all, resting, plan).
     let out = set (map okey (rp_reveal plan @ rp_public plan @ rp_expired plan));
         taken = filter (\<lambda>od. okey od \<in> out) pend_all
     in sthen (supd (\<lambda>s. s\<lparr>d_ended := [], d_repriced := []\<rparr>)) (
        sbind (stry (sthen (siter (end_expired E m) (rp_expired plan))
                       (assemble_round E m base quote now raw pruned plan resting commit_entries set_key))
                 (\<lambda>e. sthen (supd (requeue_unsent m taken)) (sraise e))) (\<lambda>res. case res of
             Inr reply \<Rightarrow> sret reply
           | Inl rec \<Rightarrow> submit_round E m plan rec)))"

text \<open>The gates: a round in flight, or a cooldown not over.\<close>

definition round_gated :: "env \<Rightarrow> int \<Rightarrow> string option dexm" where
  "round_gated E m = sbind (sget (\<lambda>s. (dget (d_inflight s) m \<noteq> None, dget (d_round_gate s) m))) (\<lambda>(flying, gate).
     if flying then sret (Some ''previous round still settling'')
     else case gate of None \<Rightarrow> sret None
       | Some t \<Rightarrow> sbind (py_time E) (\<lambda>now.
           if now - t < ROUND_ZEROFILL_SECS then sret (Some ''previous round cooling down'')
           else sthen (supd (\<lambda>s. s\<lparr>d_round_gate := dpop m (d_round_gate s)\<rparr>)) (sret None)))"

text \<open>Everything from the critical section on, once the chain was read.\<close>

definition build_from_queue :: "env \<Rightarrow> int \<Rightarrow> int \<Rightarrow> int \<Rightarrow> time \<Rightarrow> bytes \<Rightarrow> (int \<times> int) list \<Rightarrow> bytes list
    \<Rightarrow> (live_order \<Rightarrow> bool res) \<Rightarrow> nat \<Rightarrow> round_reply dexm" where
  "build_from_queue E m base quote now raw pruned commit_entries ready committee_n =
     sbind (take_orders E m now raw pruned ready committee_n)
       (round_of_plan E m base quote now raw pruned commit_entries (set_key_of E))"

definition build_open_round :: "env \<Rightarrow> int \<Rightarrow> int \<Rightarrow> int \<Rightarrow> round_reply dexm" where
  "build_open_round E m base quote =
     sbind (sget (zombies m)) (\<lambda>zs.
     sthen (swhen (zs \<noteq> []) (sbind (py_time E) (\<lambda>t. sthen (resolve_zombies E t m) (sret ())))) (
     sbind (py_time E) (\<lambda>now.
     sbind (storage_at E ''book'' [(4, m)]) (\<lambda>raw.
     sbind (expired_pairs E m raw) (\<lambda>pruned.
     sbind (market_set E (set_key_of E) m) (\<lambda>cset.
     sbind (read_finality E None) (\<lambda>fin.
     sbind (if fv_available fin then sbind (slift (pack 4 m)) (\<lambda>k. storage_final E (set_key_of E @ k)) else sret None) (\<lambda>final_raw.
     sbind (sealed_ready_predicate E m (set_entries cset) fin (map_option set_entries final_raw)) (\<lambda>ready.
     sbind (if c_enc_mode E then committee_size E else sret 0) (\<lambda>committee_n.
       build_from_queue E m base quote now raw pruned (set_entries cset) ready committee_n))))))))))"

definition build_round :: "env \<Rightarrow> int \<Rightarrow> int \<Rightarrow> int \<Rightarrow> round_reply dexm" where
  "build_round E m base quote = sbind (round_gated E m) (\<lambda>g. case g of
       Some reason \<Rightarrow> sret (Gated reason)
     | None \<Rightarrow> build_open_round E m base quote)"

end
