(* ===== verification/Server_Resolver.thy ===== *)
theory Server_Resolver
  imports Server_Build
begin

text \<open>
  The resolver thread of \<^verbatim>\<open>src/offchain/server.py\<close>: registrations confirmed or retried, signed cancels
  watched until they take effect, and one sweep over the markets (released rounds first, then the round
  in flight). \<open>w_busy\<close> is a failed \<^verbatim>\<open>acquire(blocking=False)\<close> of a market's lock.
\<close>

section \<open>Signed cancels\<close>

definition CANCEL_WATCH_SECS :: time where "CANCEL_WATCH_SECS = 600"

definition resting_entry :: "env \<Rightarrow> int \<Rightarrow> int \<Rightarrow> int \<Rightarrow> (int \<times> int \<times> int) option dexm" where
  "resting_entry E m acct oid = sbind (storage_at E ''book'' [(4, m)]) (\<lambda>raw.
     sret (map_option (\<lambda>(_, _, side, p, q). (side, p, q)) (find (\<lambda>(a, i, _). a = acct \<and> i = oid) (book_rows raw))))"

fun fill_landed :: "env \<Rightarrow> int \<Rightarrow> round_rec list \<Rightarrow> bool dexm" where
  "fill_landed E oid [] = sret False"
| "fill_landed E oid (fr # rest) =
     (if fill_of (cl_fills (rr_clearing fr)) oid \<noteq> 0
      then sbind (landed_slot E (rr_rid fr)) (\<lambda>slot. if slot \<noteq> None then sret True else fill_landed E oid rest)
      else fill_landed E oid rest)"

definition may_fill :: "env \<Rightarrow> int \<Rightarrow> int \<Rightarrow> bool dexm" where
  "may_fill E m oid = sbind (sget (records m)) (fill_landed E oid)"

text \<open>What the chain says of a watched cancel: \<open>None\<close> to keep watching, \<open>Some still\<close> once it landed,
  with the order's entry if it is still on the book.\<close>

definition cancel_landed :: "env \<Rightarrow> cancel_rec \<Rightarrow> (int \<times> int \<times> int) option option dexm" where
  "cancel_landed E c =
     sbind (nonce_of E (cw_account c)) (\<lambda>n.
       if n \<le> cw_nonce c then sret None
       else sbind (may_fill E (cw_market c) (cw_oid c)) (\<lambda>f.
         if f then sret None
         else sbind (resting_entry E (cw_market c) (cw_account c) (cw_oid c)) (\<lambda>still. sret (Some still))))"

definition cancelled_order :: "cancel_rec \<Rightarrow> live_order" where
  "cancelled_order c = \<lparr>o_account = cw_account c, o_oid = cw_oid c, o_side = cw_side c, o_price = cw_price c,
     o_qty = cw_qty c, o_sealed = False, o_expiry = None, o_uid = 0, o_seq = 0, o_market = False, o_signed_price = 0,
     o_pubkey = [], o_sig = [], o_commit = None, o_reveal = [], o_ciphertext = [], lo_address = [],
     lo_outcome = Some ''cancelled'', lo_reason = Some ''cancelled by owner (signed on-chain cancel)''\<rparr>"

definition end_cancelled :: "env \<Rightarrow> time \<Rightarrow> cancel_rec \<Rightarrow> unit dexm" where
  "end_cancelled E now c =
     sthen (supd (drop_expiry (cw_market c, cw_account c, cw_oid c)))
       (record_exec E (cw_market c) (cancelled_order c) 0 (cw_price c) False now None)"

definition resolve_cancel :: "env \<Rightarrow> time \<Rightarrow> cancel_rec \<Rightarrow> cancel_rec list \<Rightarrow> cancel_rec list dexm" where
  "resolve_cancel E now c keep =
     (if CANCEL_WATCH_SECS < now - cw_t c then sret keep
      else sbind (stry (cancel_landed E c) (\<lambda>_. sret None)) (\<lambda>st. case st of
          None \<Rightarrow> sret (keep @ [c])
        | Some still \<Rightarrow> sbind (sget (\<lambda>s. is_open (cw_market c, cw_account c, cw_oid c) (d_tel s))) (\<lambda>op.
            sthen (swhen (still = None \<and> op) (end_cancelled E now c)) (sret keep))))"

definition resolve_cancels :: "env \<Rightarrow> time \<Rightarrow> unit dexm" where
  "resolve_cancels E now =
     sbind (sget d_cancel_watch) (\<lambda>batch.
     sthen (supd (\<lambda>s. s\<lparr>d_cancel_watch := []\<rparr>)) (
     sbind (sfold (resolve_cancel E now) batch []) (\<lambda>keep.
       supd (\<lambda>s. s\<lparr>d_cancel_watch := keep @ d_cancel_watch s\<rparr>))))"

section \<open>Registrations\<close>

text \<open>\<^verbatim>\<open>now or time.time()\<close>\<close>

definition or_time :: "env \<Rightarrow> time option \<Rightarrow> time dexm" where
  "or_time E now = (if truthy now then sret (the now) else py_time E)"

definition set_reg :: "bytes \<Rightarrow> (reg_rec \<Rightarrow> reg_rec) \<Rightarrow> dex \<Rightarrow> dex" where
  "set_reg pk f s = s\<lparr>d_reg_pending := AList.map_ran (\<lambda>k e. if k = pk then f e else e) (d_reg_pending s)\<rparr>"

definition try_submit_register :: "env \<Rightarrow> bytes \<Rightarrow> time option \<Rightarrow> unit dexm" where
  "try_submit_register E pk now =
     sbind (sget (\<lambda>s. dget (d_reg_pending s) pk)) (\<lambda>e. case e of
         None \<Rightarrow> sret ()
       | Some e \<Rightarrow> sbind (or_time E now) (\<lambda>t.
           sthen (stry (sthen (submit E (rg_payload e) (Some (Handle_known pk)) [])
                          (supd (set_reg pk (\<lambda>e. e\<lparr>rg_attempts := rg_attempts e + 1\<rparr>))))
                    (\<lambda>x. if is_busy x then sret () else sraise x))
             (supd (set_reg pk (\<lambda>e. e\<lparr>rg_last := t\<rparr>)))))"

definition forget_reg :: "bytes \<Rightarrow> dex \<Rightarrow> dex" where
  "forget_reg pk s = s\<lparr>d_reg_pending := dpop pk (d_reg_pending s)\<rparr>"

definition resolve_registration :: "env \<Rightarrow> time \<Rightarrow> bytes \<Rightarrow> unit dexm" where
  "resolve_registration E now pk =
     sbind (sget (\<lambda>s. dget (d_reg_pending s) pk)) (\<lambda>e. case e of
         None \<Rightarrow> sraise KeyError
       | Some e \<Rightarrow> sbind (handle_of E pk) (\<lambda>h.
           if h \<noteq> None then supd (forget_reg pk)
           else if c_reg_giveup_secs E < now - rg_t e \<or> c_reg_max_attempts E \<le> rg_attempts e then supd (forget_reg pk)
           else swhen (c_reg_retry_secs E \<le> now - rg_last e) (try_submit_register E pk (Some now))))"

definition resolve_registrations_once :: "env \<Rightarrow> time \<Rightarrow> unit dexm" where
  "resolve_registrations_once E now = sbind (sget (\<lambda>s. dkeys (d_reg_pending s))) (siter (resolve_registration E now))"

section \<open>One sweep\<close>

definition resolve_market :: "env \<Rightarrow> time option \<Rightarrow> int \<Rightarrow> unit dexm" where
  "resolve_market E pinned m =
     sbind (peek (\<lambda>t. w_busy E t m)) (\<lambda>busy.
       if busy then sret ()
       else sbind (or_time E pinned) (\<lambda>t.
            sthen (resolve_zombies E t m) (
            sbind (sget (\<lambda>s. dget (d_inflight s) m)) (\<lambda>fr. case fr of
                None \<Rightarrow> sret ()
              | Some fr \<Rightarrow> resolve_inflight E m fr t))))"

text \<open>\<^verbatim>\<open>sorted(set(_inflight) | set(_zombies))\<close>\<close>

definition live_markets :: "dex \<Rightarrow> int list" where
  "live_markets s = remdups_adj (sort (dkeys (d_inflight s) @ dkeys (d_zombies s)))"

definition resolve_rounds_once :: "env \<Rightarrow> time option \<Rightarrow> unit dexm" where
  "resolve_rounds_once E pinned =
     sbind (or_time E pinned) (\<lambda>now.
     sthen (resolve_registrations_once E now) (
     sthen (drain_carry_retry E now) (
     sbind (sget live_markets) (\<lambda>ms.
     sthen (siter (resolve_market E pinned) ms)
       (resolve_cancels E now)))))"

text \<open>The resolver thread's step: a raise is printed and the sweep starts over two seconds later.\<close>

definition round_resolver_step :: "env \<Rightarrow> unit dexm" where
  "round_resolver_step E = stry (resolve_rounds_once E None) (\<lambda>_. sret ())"

end
