(* ===== verification/Server_Treasury.thy ===== *)
theory Server_Treasury
  imports Server_Resolver
begin

text \<open>
  The money side of \<^verbatim>\<open>src/offchain/server.py\<close>: deposits with their idempotency nonce, the JAMKB reserve and
  its obligation, the treasury's endpoints, the start-up endowment and the reserve keeper; and of
  \<^verbatim>\<open>src/offchain/dex_setup.py\<close> the payload and the landed test of a deposit. Requests are records of their
  decoded fields: \<^verbatim>\<open>int(b[...])\<close>, \<^verbatim>\<open>float(b[...])\<close> and \<^verbatim>\<open>bytes.fromhex(b[...])\<close> have been applied. What a
  handler returns is the part of its JSON reply that carries information. Printed messages are not
  modelled.
\<close>

section \<open>Deposits\<close>

definition deposit_nonce :: "env \<Rightarrow> int dexm" where
  "deposit_nonce E = sbind (peek (w_time_ns E)) (\<lambda>ns. sbind (sget (\<lambda>s. max ns (d_deposit_nonce s + 1))) (\<lambda>n.
     sthen (supd (\<lambda>s. s\<lparr>d_deposit_nonce := n\<rparr>)) (sret n)))"

text \<open>\<^verbatim>\<open>dex_setup.deposit_payload\<close> and \<^verbatim>\<open>dex_setup.deposit_landed\<close>\<close>

definition setup_deposit_payload :: "int \<Rightarrow> int \<Rightarrow> int \<Rightarrow> int \<Rightarrow> bytes res" where
  "setup_deposit_payload account asset amount nonce =
     (if \<not> (0 < nonce \<and> nonce < 2 ^ 64) then Inl (ValueError ''a deposit nonce is in 1..2^64-1'')
      else bind_res (packs [(4, account), (4, asset), (8, amount), (8, nonce)]) (\<lambda>b. Inr ([TAG_DEPOSIT] @ b)))"

text \<open>The octets of a deposit record: a floor, and the nonces above it (whole 8-octet words).\<close>

definition deposit_window :: "bytes \<Rightarrow> int list" where
  "deposit_window v = map (\<lambda>i. field (8 + 8 * i) 8 v) [0..<(length v - 8) div 8]"

definition record_admits :: "bytes \<Rightarrow> int \<Rightarrow> bool" where
  "record_admits v nonce \<longleftrightarrow> 8 \<le> length v \<and> (nonce \<le> field 0 8 v \<or> nonce \<in> set (deposit_window v))"

definition deposit_landed :: "env \<Rightarrow> int \<Rightarrow> int \<Rightarrow> bool dexm" where
  "deposit_landed E account nonce = sbind (storage_at E ''dn'' [(4, account)]) (\<lambda>v. sret (record_admits v nonce))"

definition deposit_payload :: "env \<Rightarrow> int \<Rightarrow> int \<Rightarrow> int \<Rightarrow> int option \<Rightarrow> bytes dexm" where
  "deposit_payload E acct asset amount nonce =
     sbind (case nonce of None \<Rightarrow> deposit_nonce E | Some n \<Rightarrow> sret n) (\<lambda>n.
       slift (setup_deposit_payload acct asset amount n))"

record deposit_req =
  dq_account :: int
  dq_asset :: int
  dq_amount :: rat
  dq_nonce :: "int option"

definition api_deposit :: "env \<Rightarrow> deposit_req \<Rightarrow> unit dexm" where
  "api_deposit E q =
     (let amount = to_atomic (dq_amount q) in
      if dq_nonce q \<noteq> None \<and> \<not> (0 < the (dq_nonce q) \<and> the (dq_nonce q) < 2 ^ 64)
      then sraise (ValueError ''deposit nonce must be in 1..2^64-1'')
      else sbind (bal E (dq_asset q) (dq_account q)) (\<lambda>before.
           sbind (deposit_payload E (dq_account q) (dq_asset q) amount (dq_nonce q)) (\<lambda>p.
           sthen (submit E p (Some (Balance_at_least (dq_asset q) (dq_account q) (before + amount))) []) (sret ()))))"

section \<open>The reserve\<close>

definition footprint_octets :: "env \<Rightarrow> int dexm" where
  "footprint_octets E = stry (sbind (ask E (w_service_info E)) (\<lambda>i. sret (si_octets i))) (\<lambda>_. sret 0)"

definition rent_reserve_atomic :: "env \<Rightarrow> int dexm" where
  "rent_reserve_atomic E = sbind (footprint_octets E) (\<lambda>octets. sret (jamkb_rent octets * SCALE))"

definition reserve_target_atomic :: "env \<Rightarrow> int dexm" where
  "reserve_target_atomic E = sbind (footprint_octets E) (\<lambda>octets.
     sret (reserve_target (jamkb_rent octets) (c_reserve_buffer_kb E) JAMKB_SUPPLY * SCALE))"

definition jamkb_solvency :: "env \<Rightarrow> (bool \<times> int) dexm" where
  "jamkb_solvency E = sbind (bal E JAMKB FEE_ACCOUNT) (\<lambda>held. sbind (rent_reserve_atomic E) (\<lambda>r. sret (solvency held r)))"

text \<open>\<^verbatim>\<open>{a: bal(a, FEE_ACCOUNT) for a in (USDC, DOT, JAMKB)}\<close>\<close>

definition treasury_balances :: "env \<Rightarrow> balances dexm" where
  "treasury_balances E = smap (\<lambda>a. sbind (bal E a FEE_ACCOUNT) (\<lambda>v. sret (a, v))) [USDC, DOT, JAMKB]"

record treasury_view =
  tv_treasury :: "(int, rat) dict"
  tv_rent :: rat
  tv_reserve_held :: rat
  tv_shortfall :: rat
  tv_over_reserved :: rat
  tv_solvent :: bool
  tv_withdrawable :: "(int, rat) dict"
  tv_sweep_enabled :: bool
  tv_backpressure :: bool
  tv_reserve_target :: rat
  tv_held :: rat

definition treasury_status :: "env \<Rightarrow> treasury_view dexm" where
  "treasury_status E =
     sbind (rent_reserve_atomic E) (\<lambda>reserve.
     sbind (treasury_balances E) (\<lambda>bals.
       let sp = profit_split bals reserve in
       sbind (reserve_target_atomic E) (\<lambda>target.
       sret \<lparr>tv_treasury = map (\<lambda>(a, v). (a, disp v)) bals, tv_rent = disp reserve, tv_reserve_held = disp (sp_reserve_held sp),
         tv_shortfall = disp (sp_shortfall sp), tv_over_reserved = disp (sp_over_reserved sp), tv_solvent = sp_solvent sp,
         tv_withdrawable = map (\<lambda>(a, v). (a, disp v)) (sp_withdrawable sp), tv_sweep_enabled = c_sweep E,
         tv_backpressure = (c_backpressure E \<and> \<not> sp_solvent sp), tv_reserve_target = disp target,
         tv_held = disp (get0 bals JAMKB)\<rparr>)))"

definition api_reserve_topup :: "env \<Rightarrow> rat \<Rightarrow> (rat \<times> rat) dexm" where
  "api_reserve_topup E amount_shown =
     (let amount = to_atomic amount_shown in
      if amount \<le> 0 then sraise (ValueError ''top-up amount must be positive'')
      else sbind (bal E JAMKB FEE_ACCOUNT) (\<lambda>held.
           sbind (reserve_target_atomic E) (\<lambda>target.
             let room = target - held in
             if room \<le> 0 then sraise (ValueError (''reserve already at target ('' @ show_num (disp target) @
                 '' JAMKB = obligation + buffer) - holding more would be idle RAM rights; nothing to acquire''))
             else if room < amount then sraise (ValueError (''top-up capped at '' @ show_num (disp room) @ '' JAMKB (target '' @
                 show_num (disp target) @ ''); a service holds only what it occupies, not a hoard''))
             else sbind (deposit_payload E FEE_ACCOUNT JAMKB amount None) (\<lambda>p.
                  sthen (submit E p None []) (
                  sbind (bal E JAMKB FEE_ACCOUNT) (\<lambda>now_held. sret (disp now_held, disp target)))))))"

section \<open>Withdrawing profit\<close>

definition asset_name :: "int \<Rightarrow> string" where
  "asset_name a = (if a = 0 then ''USDC'' else if a = 1 then ''DOT'' else if a = 2 then ''JAMKB'' else show_int a)"

definition withdrawable_now :: "env \<Rightarrow> int \<Rightarrow> int dexm" where
  "withdrawable_now E asset = sbind (treasury_balances E) (\<lambda>bals. sbind (rent_reserve_atomic E) (\<lambda>r.
     sret (max_withdrawable bals r asset)))"

definition treasury_payload :: "int \<Rightarrow> int \<Rightarrow> int \<Rightarrow> int \<Rightarrow> bytes \<Rightarrow> bytes res" where
  "treasury_payload asset amount dest nonce sig =
     bind_res (packs [(4, asset), (8, amount), (4, dest), (8, nonce)]) (\<lambda>b. Inr ([TAG_TREASURY] @ b @ sig))"

text \<open>The message the governance key signs.\<close>

definition treasury_msg :: "int \<Rightarrow> int \<Rightarrow> int \<Rightarrow> int \<Rightarrow> bytes res" where
  "treasury_msg asset amount dest nonce = bind_res (pack 4 asset) (\<lambda>a. bind_res (pack 8 amount) (\<lambda>b.
     bind_res (pack 4 dest) (\<lambda>c. bind_res (pack 8 nonce) (\<lambda>d. Inr (canon ''treasury'' [a, b, c, d])))))"

definition gov_nonce :: "env \<Rightarrow> int dexm" where
  "gov_nonce E = sbind (storage E (ascii ''govnonce'')) (\<lambda>v. sret (int (le_dec v)))"

definition api_beneficiary_sweep :: "env \<Rightarrow> int \<Rightarrow> int \<Rightarrow> rat \<Rightarrow> (rat \<times> string \<times> int) dexm" where
  "api_beneficiary_sweep E asset dest amount_shown =
     (if \<not> c_sweep E then sraise (ValueError (''beneficiary sweep is disabled - run with BENEFICIARY_SWEEP=1 '' @
          ''(prototype: server holds the demo gov key), or sweep out-of-band with the committee CLI. See docs/REVENUE.md''))
      else let amount = to_atomic amount_shown in
        sbind (withdrawable_now E asset) (\<lambda>allowed.
          if allowed < amount then sraise (ValueError (''exceeds withdrawable profit: '' @ show_num (disp amount) @ '' requested, '' @
              show_num (disp allowed) @ '' '' @ asset_name asset @ '' available (the rest covers the JAMKB state rent)''))
          else sbind (gov_nonce E) (\<lambda>nonce.
               sbind (slift (treasury_msg asset amount dest nonce)) (\<lambda>msg.
               sbind (slift (treasury_payload asset amount dest nonce (w_gov_sign E msg))) (\<lambda>p.
               sthen (submit E p None []) (sret (disp amount, asset_name asset, dest)))))))"

record treasury_req =
  yq_asset :: int
  yq_amount_atomic :: int
  yq_dest :: int
  yq_nonce :: int
  yq_sig :: bytes

definition api_treasury :: "env \<Rightarrow> treasury_req \<Rightarrow> unit dexm" where
  "api_treasury E q =
     sbind (withdrawable_now E (yq_asset q)) (\<lambda>allowed.
       if allowed < yq_amount_atomic q then
         sraise (ValueError (''withdrawal exceeds profit: '' @ asset_name (yq_asset q) @ '' '' @ show_num (disp (yq_amount_atomic q)) @
           '' requested, '' @ show_num (disp allowed) @ '' withdrawable (the rest covers the JAMKB state rent - see docs/REVENUE.md)''))
       else sbind (slift (treasury_payload (yq_asset q) (yq_amount_atomic q) (yq_dest q) (yq_nonce q) (yq_sig q))) (\<lambda>p.
            sthen (submit E p None []) (sret ())))"

definition api_govnonce :: "env \<Rightarrow> (int \<times> (int, rat) dict) dexm" where
  "api_govnonce E = sbind (gov_nonce E) (\<lambda>n. sbind (treasury_balances E) (\<lambda>bals.
     sret (n, map (\<lambda>(a, v). (a, disp v)) bals)))"

definition api_footprint :: "env \<Rightarrow> (int \<times> int) option dexm" where
  "api_footprint E = stry (sbind (ask E (w_service_info E)) (\<lambda>i. sret (Some (si_items i, si_octets i)))) (\<lambda>_. sret None)"

section \<open>The endowment and the keeper\<close>

definition ensure_reserve :: "env \<Rightarrow> unit dexm" where
  "ensure_reserve E = stry (
     sbind (reserve_target_atomic E) (\<lambda>target.
     sbind (bal E JAMKB FEE_ACCOUNT) (\<lambda>held.
       if target \<le> held then sret ()
       else sbind (deposit_payload E FEE_ACCOUNT JAMKB (target - held) None) (\<lambda>p.
            sthen (submit E p None []) (sthen (bal E JAMKB FEE_ACCOUNT) (sret ())))))) (\<lambda>_. sret ())"

definition TOPUP_RESEND_SECS :: time where "TOPUP_RESEND_SECS = 60"

definition set_topup :: "(topup \<Rightarrow> topup) \<Rightarrow> unit dexm" where
  "set_topup f = supd (\<lambda>s. s\<lparr>d_topup := f (d_topup s)\<rparr>)"

fun is_chain_error :: "exn \<Rightarrow> bool" where
  "is_chain_error (ChainError _) = True"
| "is_chain_error (ChainBusy _) = True"
| "is_chain_error (ChainUnsupported _) = True"
| "is_chain_error _ = False"

definition send_topup :: "env \<Rightarrow> bytes \<Rightarrow> unit dexm" where
  "send_topup E payload = stry (sthen (submit E payload None []) (sret ()))
     (\<lambda>e. if is_busy e then set_topup (\<lambda>t. t\<lparr>tu_sent := None\<rparr>) else if is_chain_error e then sret () else sraise e)"

datatype keeper_look = Sent | Resent | Waiting | Nothing_due

text \<open>A look with no top-up in flight, and the whole look.\<close>

definition consider_topup :: "env \<Rightarrow> time \<Rightarrow> keeper_look dexm" where
  "consider_topup E now =
     sbind (bal E JAMKB FEE_ACCOUNT) (\<lambda>held.
     sbind (reserve_target_atomic E) (\<lambda>target.
       let amount = topup_due held target (c_reserve_buffer_kb E * SCALE) in
       if amount = 0 then sret Nothing_due
       else sbind (deposit_nonce E) (\<lambda>nonce.
            sbind (deposit_payload E FEE_ACCOUNT JAMKB amount (Some nonce)) (\<lambda>p.
            sthen (set_topup (\<lambda>t. \<lparr>tu_payload = Some p, tu_nonce = Some nonce, tu_sent = Some now\<rparr>)) (
            sthen (mtr (inc ''jamswap_reserve_topups_total'' [] 1)) (
            sthen (send_topup E p) (sret Sent)))))))"

definition reserve_keeper_tick :: "env \<Rightarrow> time \<Rightarrow> keeper_look dexm" where
  "reserve_keeper_tick E now =
     sbind (sget d_topup) (\<lambda>t. case tu_nonce t of
         None \<Rightarrow> consider_topup E now
       | Some nonce \<Rightarrow> sbind (deposit_landed E FEE_ACCOUNT nonce) (\<lambda>landed.
           if landed then sthen (set_topup (\<lambda>t. t\<lparr>tu_payload := None, tu_nonce := None\<rparr>)) (consider_topup E now)
           else if tu_sent t \<noteq> None \<and> now - the (tu_sent t) < TOPUP_RESEND_SECS then sret Waiting
           else sthen (set_topup (\<lambda>t. t\<lparr>tu_sent := Some now\<rparr>))
               (sthen (send_topup E (the (tu_payload t))) (sret Resent))))"

end
