(* ===== verification/Server_Door.thy ===== *)
theory Server_Door
  imports Server_Treasury
begin

text \<open>
  The accounts and orders endpoints of \<^verbatim>\<open>src/offchain/server.py\<close>: withdrawals, signed cancels and
  registrations; the two-phase sealed placement; \<^verbatim>\<open>api_order\<close> with every check it makes, in order; the
  views a trader reads; and the removal of a queued order. In texts shown to users the em dash is
  written \<open>-\<close> and the ellipsis as three dots.
\<close>

section \<open>Accounts\<close>

definition pubkey_of_handle :: "env \<Rightarrow> int \<Rightarrow> bytes option dexm" where
  "pubkey_of_handle E handle = sbind (storage_at E ''pk'' [(4, handle)]) (\<lambda>v. sret (if 32 \<le> length v then Some v else None))"

definition signer_key :: "env \<Rightarrow> int \<Rightarrow> bytes dexm" where
  "signer_key E handle = sbind (pubkey_of_handle E handle) (\<lambda>pk. case pk of
       None \<Rightarrow> sraise (ValueError (''account '' @ show_int handle @ '' is not registered''))
     | Some k \<Rightarrow> sret (take 32 k))"

record withdraw_req =
  wq_account :: int
  wq_asset :: int
  wq_nonce :: int
  wq_amount_atomic :: int
  wq_sig :: bytes

definition api_withdraw :: "env \<Rightarrow> withdraw_req \<Rightarrow> rat dexm" where
  "api_withdraw E q =
     sbind (slift (packs [(4, wq_account q), (4, wq_asset q), (8, wq_amount_atomic q), (8, wq_nonce q)])) (\<lambda>b.
     sbind (signer_key E (wq_account q)) (\<lambda>key.
     sthen (submit E ([TAG_WITHDRAW] @ b @ wq_sig q @ key) (Some (Nonce_above (wq_account q) (wq_nonce q))) []) (
     sbind (bal E (wq_asset q) (wq_account q)) (\<lambda>v. sret (disp v)))))"

record cancel_req =
  cq_account :: int
  cq_market :: int
  cq_order_id :: int
  cq_nonce :: int
  cq_sig :: bytes

definition api_cancel :: "env \<Rightarrow> cancel_req \<Rightarrow> unit dexm" where
  "api_cancel E q =
     sbind (stry (resting_entry E (cq_market q) (cq_account q) (cq_order_id q)) (\<lambda>_. sret None)) (\<lambda>resting.
     sbind (slift (packs [(4, cq_account q), (4, cq_market q), (4, cq_order_id q), (8, cq_nonce q)])) (\<lambda>b.
     sbind (signer_key E (cq_account q)) (\<lambda>key.
     sthen (submit E ([TAG_CANCEL] @ b @ cq_sig q @ key) (Some (Nonce_above (cq_account q) (cq_nonce q))) []) (
       case resting of
         None \<Rightarrow> sret ()
       | Some (side, p, qty) \<Rightarrow> sbind (py_time E) (\<lambda>t.
           supd (\<lambda>s. s\<lparr>d_cancel_watch := d_cancel_watch s @ [\<lparr>cw_market = cq_market q, cw_account = cq_account q,
             cw_oid = cq_order_id q, cw_nonce = cq_nonce q, cw_t = t, cw_side = side, cw_price = p, cw_qty = qty\<rparr>]\<rparr>))))))"

text \<open>The handle when the key is already on chain, else \<open>None\<close> (registering).\<close>

definition api_register :: "env \<Rightarrow> bytes \<Rightarrow> bytes \<Rightarrow> int option dexm" where
  "api_register E pubkey sig =
     sbind (handle_of E pubkey) (\<lambda>h. case h of
         Some n \<Rightarrow> sthen (supd (forget_reg pubkey)) (sret (Some n))
       | None \<Rightarrow> sbind (sget (\<lambda>s. dget (d_reg_pending s) pubkey)) (\<lambda>e.
           sthen (if e \<noteq> None then sret () else sbind (py_time E) (\<lambda>t.
               sthen (supd (\<lambda>s. s\<lparr>d_reg_pending := dset pubkey \<lparr>rg_payload = [TAG_REGISTER] @ pubkey @ sig, rg_t = t,
                        rg_attempts = 0, rg_last = 0\<rparr> (d_reg_pending s)\<rparr>))
                 (try_submit_register E pubkey None)))
             (sret None)))"

definition api_handle :: "env \<Rightarrow> bytes \<Rightarrow> int option dexm" where "api_handle E pk = handle_of E pk"

definition api_nonce :: "env \<Rightarrow> int \<Rightarrow> int dexm" where "api_nonce E h = nonce_of E h"

definition api_balance :: "env \<Rightarrow> int \<Rightarrow> int \<Rightarrow> rat dexm" where
  "api_balance E asset acct = sbind (bal E asset acct) (\<lambda>v. sret (disp v))"

definition api_list :: "env \<Rightarrow> int \<Rightarrow> int \<Rightarrow> int \<Rightarrow> unit dexm" where
  "api_list E m base quote = sbind (slift (packs [(4, m), (4, base), (4, quote)])) (\<lambda>b.
     sthen (submit E ([6] @ b) None []) (sret ()))"

section \<open>What an order may rest\<close>

definition FOOTPRINT_PUBLIC :: rat where "FOOTPRINT_PUBLIC = 17"
definition FOOTPRINT_SEALED :: rat where "FOOTPRINT_SEALED = 32"

definition order_lifetime_secs :: "env \<Rightarrow> bool \<Rightarrow> time" where
  "order_lifetime_secs E sealed =
     (let fp_kb = (if sealed then FOOTPRINT_SEALED else FOOTPRINT_PUBLIC) / 1024;
          life = (if 0 < c_rent_budget_kbs E then c_rent_budget_kbs E / fp_kb else c_max_resting_secs E)
      in min life (c_max_resting_secs E))"

definition open_order_count :: "env \<Rightarrow> int \<Rightarrow> int \<Rightarrow> int dexm" where
  "open_order_count E m acct =
     sbind (sget (\<lambda>s. length (filter (\<lambda>od. o_account od = acct) (pend m s)))) (\<lambda>n.
     sbind (storage_at E ''book'' [(4, m)]) (\<lambda>raw.
       sret (int (n + length (filter (\<lambda>(a, _). a = acct) (book_rows raw))))))"

text \<open>\<^verbatim>\<open>_seq_in_use\<close>: a live public order of the account, queued or in flight on any market.\<close>

definition seq_in_use :: "int \<Rightarrow> int \<Rightarrow> dex \<Rightarrow> bool" where
  "seq_in_use acct seq s = list_ex (\<lambda>od. \<not> o_sealed od \<and> o_account od = acct \<and> o_seq od = seq)
     (concat (map snd (d_pending s)) @ concat (map (\<lambda>(_, fr). rr_public fr) (d_inflight s)))"

definition verify_order_sig :: "env \<Rightarrow> bytes \<Rightarrow> bytes \<Rightarrow> bytes \<Rightarrow> bool" where
  "verify_order_sig E pubkey msg sig = (if \<not> c_have_nacl E then True
     else w_verify E pubkey msg sig \<or> w_verify E pubkey (ascii ''<Bytes>'' @ msg @ ascii ''</Bytes>'') sig)"

section \<open>Sealed drafts\<close>

record seal_req =
  sq_market :: int
  sq_account :: int
  sq_buy :: bool
  sq_is_market :: bool
  sq_qty :: rat
  sq_price :: rat

definition side_of :: "bool \<Rightarrow> int" where "side_of buy = (if buy then BUY else SELL)"

text \<open>The price of a request: the band's edge for a market order, the scaled limit otherwise.\<close>

definition request_price :: "env \<Rightarrow> int \<Rightarrow> bool \<Rightarrow> int \<Rightarrow> rat \<Rightarrow> int dexm" where
  "request_price E m is_market side price =
     (if is_market then sbind (mstate E ''lp'' m) (\<lambda>lp.
        if lp \<le> 0 then sraise (ValueError ''no reference price yet on this market - place a limit order'')
        else sret (market_price side lp))
      else sret (to_atomic price))"

definition take_oid :: "int dexm" where
  "take_oid s = (Inr (d_next_oid s), s\<lparr>d_next_oid := d_next_oid s + 1\<rparr>)"

definition draft_order :: "seal_req \<Rightarrow> int \<Rightarrow> int \<Rightarrow> live_order" where
  "draft_order q oid price = \<lparr>o_account = sq_account q, o_oid = oid, o_side = side_of (sq_buy q), o_price = price,
     o_qty = to_atomic (sq_qty q), o_sealed = True, o_expiry = None, o_uid = 0, o_seq = 0, o_market = sq_is_market q,
     o_signed_price = 0, o_pubkey = [], o_sig = [], o_commit = None, o_reveal = [], o_ciphertext = [], lo_address = [],
     lo_outcome = None, lo_reason = None\<rparr>"

definition api_seal_prepare :: "env \<Rightarrow> seal_req \<Rightarrow> (int \<times> bytes) dexm" where
  "api_seal_prepare E q =
     sbind (request_price E (sq_market q) (sq_is_market q) (side_of (sq_buy q)) (sq_price q)) (\<lambda>price.
     sbind take_oid (\<lambda>oid.
     sbind (seal_material E (sq_market q) (draft_order q oid price)) (\<lambda>d.
     sthen (supd (\<lambda>s. s\<lparr>d_seal_drafts := dset (sq_market q, oid) d (d_seal_drafts s)\<rparr>))
       (sret (oid, the (o_commit d))))))"

definition submit_signed_commit :: "env \<Rightarrow> int \<Rightarrow> live_order \<Rightarrow> int \<Rightarrow> bytes \<Rightarrow> unit dexm" where
  "submit_signed_commit E m draft commit_seq commit_sig =
     sbind (slift (pack 8 commit_seq)) (\<lambda>sb.
     sbind (signer_key E (o_account draft)) (\<lambda>key.
       let tail = sb @ commit_sig @ key in
       sbind (slift (if c_enc_mode E
           then bind_res (pack 4 m) (\<lambda>mb. bind_res (pack 4 (o_account draft)) (\<lambda>ab.
                  Inr ([TAG_ENC_COMMIT] @ mb @ o_ciphertext draft @ ab @ tail)))
           else bind_res (packs [(4, m), (4, o_account draft)]) (\<lambda>b.
                  Inr ([TAG_COMMIT] @ b @ the (o_commit draft) @ tail)))) (\<lambda>p.
       sthen (submit E p None []) (sret ()))))"

section \<open>Placing an order\<close>

record order_req =
  oq_market :: int
  oq_buy :: bool
  oq_is_market :: bool
  oq_account :: int
  oq_qty :: rat
  oq_price :: rat
  oq_base :: int
  oq_quote :: int
  oq_seq :: int
  oq_sig :: bytes
  oq_sealed :: bool
  oq_oid :: int
  oq_commit_sig :: bytes
  oq_commit_seq :: int
  oq_ttl :: rat
  oq_address :: string

definition check_solvent :: "env \<Rightarrow> unit dexm" where
  "check_solvent E = (if \<not> c_backpressure E then sret ()
     else sbind (jamkb_solvency E) (\<lambda>(solvent, shortfall). if solvent then sret ()
       else sraise (ValueError (''service under-reserved on JAMKB (short '' @ show_num (disp shortfall) @
         '' KB) - top up the reserve before placing new orders''))))"

text \<open>The draft a sealed request names is consumed before it is checked.\<close>

definition take_draft :: "order_req \<Rightarrow> bytes option \<Rightarrow> live_order option dexm" where
  "take_draft q pub = (if \<not> oq_sealed q then sret None
     else sbind (sget (\<lambda>s. dget (d_seal_drafts s) (oq_market q, oq_oid q))) (\<lambda>d.
          sthen (supd (\<lambda>s. s\<lparr>d_seal_drafts := dpop (oq_market q, oq_oid q) (d_seal_drafts s)\<rparr>)) (case d of
            None \<Rightarrow> sraise (ValueError ''sealed order needs /api/seal_prepare first (draft missing or already used)'')
          | Some d \<Rightarrow>
              if o_account d \<noteq> oq_account q then sraise (ValueError ''sealed draft belongs to a different account'')
              else if pub = None then sraise (ValueError ''account not registered - connect a wallet and register first'')
              else if length (oq_commit_sig q) \<noteq> 64 \<or> oq_commit_seq q = 0
                then sraise (ValueError ''sealed orders must carry an owner commit signature (commit_sig, commit_seq)'')
              else sret (Some d))))"

definition check_signed :: "order_req \<Rightarrow> bytes option \<Rightarrow> unit dexm" where
  "check_signed q pub = (if oq_sealed q then sret ()
     else if pub = None then sraise (ValueError ''account not registered - connect a wallet and register first'')
     else if oq_seq q = 0 \<or> length (oq_sig q) \<noteq> 64
       then sraise (ValueError ''public orders must carry a signature and seq (verified in refine)'')
     else sret ())"

definition order_msg :: "order_req \<Rightarrow> int \<Rightarrow> int \<Rightarrow> bytes res" where
  "order_msg q qty signed_price =
     bind_res (pack 4 (oq_account q)) (\<lambda>a. bind_res (pack 4 (oq_market q)) (\<lambda>m. bind_res (pack 4 qty) (\<lambda>n.
     bind_res (pack 4 signed_price) (\<lambda>p. bind_res (pack 8 (oq_seq q)) (\<lambda>sq.
       Inr (canon ''order'' [a, m, [word_of_int (side_of (oq_buy q))], n, [if oq_is_market q then 1 else 0],
              [if oq_sealed q then 1 else 0], p, sq]))))))"

definition check_seq :: "env \<Rightarrow> order_req \<Rightarrow> unit dexm" where
  "check_seq E q = (if oq_sealed q then sret ()
     else sbind (seq_floor E (oq_account q)) (\<lambda>fl.
       if oq_seq q \<le> fl then sraise (ValueError (''order seq '' @ show_int (oq_seq q) @ '' is not above the account's settled seq '' @
           show_int fl @ '' - sign the order with a fresh seq''))
       else sbind (sget (seq_in_use (oq_account q) (oq_seq q))) (\<lambda>used.
         if used then sraise (ValueError (''order seq '' @ show_int (oq_seq q) @
             '' is already used by a live order of this account - sign each order with a fresh seq''))
         else sret ())))"

definition check_funds :: "env \<Rightarrow> order_req \<Rightarrow> int \<Rightarrow> int \<Rightarrow> unit dexm" where
  "check_funds E q price qty = (if \<not> (0 \<le> oq_base q \<and> 0 \<le> oq_quote q) then sret ()
     else if oq_buy q then
       (let need = (qty * price + SCALE - 1) div SCALE in
        sbind (bal E (oq_quote q) (oq_account q)) (\<lambda>v. if v < need
          then sraise (ValueError (''insufficient '' @ asset_name (oq_quote q) @ '' to fund this buy (need '' @ show_num (disp need) @ '')''))
          else sret ()))
     else sbind (bal E (oq_base q) (oq_account q)) (\<lambda>v. if v < qty
          then sraise (ValueError (''insufficient '' @ asset_name (oq_base q) @ '' to fund this sell (need '' @ show_num (disp qty) @ '')''))
          else sret ()))"

definition check_open :: "env \<Rightarrow> order_req \<Rightarrow> unit dexm" where
  "check_open E q = (if c_max_open_orders E \<le> 0 then sret ()
     else sbind (open_order_count E (oq_market q) (oq_account q)) (\<lambda>n. if c_max_open_orders E \<le> n
       then sraise (ValueError (''open-order limit reached ('' @ show_int (c_max_open_orders E) @
         '' per market) - cancel or let some clear before placing more''))
       else sret ()))"

definition effective_ttl :: "env \<Rightarrow> bool \<Rightarrow> rat \<Rightarrow> time" where
  "effective_ttl E sealed ttl = (let life = order_lifetime_secs E sealed in if 0 < ttl then min ttl life else life)"

text \<open>The order as queued: the request's side and type, the draft's price, quantity and hiding material.\<close>

definition new_order :: "order_req \<Rightarrow> int \<Rightarrow> int \<Rightarrow> int \<Rightarrow> bytes option \<Rightarrow> int \<Rightarrow> live_order option \<Rightarrow> live_order" where
  "new_order q oid price qty pub signed_price draft = \<lparr>o_account = oq_account q, o_oid = oid, o_side = side_of (oq_buy q),
     o_price = price, o_qty = qty, o_sealed = oq_sealed q, o_expiry = None, o_uid = 0, o_seq = oq_seq q,
     o_market = oq_is_market q, o_signed_price = signed_price,
     o_pubkey = (case pub of None \<Rightarrow> replicate 32 0 | Some k \<Rightarrow> k), o_sig = oq_sig q,
     o_commit = (case draft of None \<Rightarrow> None | Some d \<Rightarrow> o_commit d),
     o_reveal = (case draft of None \<Rightarrow> [] | Some d \<Rightarrow> o_reveal d),
     o_ciphertext = (case draft of None \<Rightarrow> [] | Some d \<Rightarrow> o_ciphertext d),
     lo_address = oq_address q, lo_outcome = None, lo_reason = None\<rparr>"

record placed_reply =
  pl_oid :: int
  pl_sealed :: bool
  pl_is_market :: bool
  pl_pending :: nat

text \<open>From the checked request on: the id, the expiry, the owner's commitment, the queue.\<close>

definition place_order :: "env \<Rightarrow> order_req \<Rightarrow> int \<Rightarrow> int \<Rightarrow> bytes option \<Rightarrow> int \<Rightarrow> live_order option \<Rightarrow> placed_reply dexm" where
  "place_order E q price qty pub signed_price draft =
     sbind (case draft of Some d \<Rightarrow> sret (o_oid d) | None \<Rightarrow> take_oid) (\<lambda>oid.
     sbind (py_time E) (\<lambda>t.
     sthen (supd (\<lambda>s. s\<lparr>d_expiry := dset (oq_market q, oq_account q, oid) (t + effective_ttl E (oq_sealed q) (oq_ttl q)) (d_expiry s)\<rparr>)) (
     sthen (case draft of None \<Rightarrow> sret ()
            | Some d \<Rightarrow> submit_signed_commit E (oq_market q) d (oq_commit_seq q) (oq_commit_sig q)) (
     sbind (if oq_sealed q then sret False else marketable E (oq_market q) (side_of (oq_buy q)) price) (\<lambda>mk.
     sthen (supd (new_object (oq_market q) (new_order q oid price qty pub signed_price draft))) (
     sbind (sget (\<lambda>s. length (pend (oq_market q) s))) (\<lambda>n.
     sthen (tel E (\<lambda>clk. placed clk (oq_market q, oq_account q, oid) (side_of (oq_buy q)) price qty (oq_sealed q) mk))
       (sret \<lparr>pl_oid = oid, pl_sealed = oq_sealed q, pl_is_market = oq_is_market q, pl_pending = n\<rparr>))))))))"

definition api_order :: "env \<Rightarrow> order_req \<Rightarrow> placed_reply dexm" where
  "api_order E q =
     sthen (check_solvent E) (
     sbind (request_price E (oq_market q) (oq_is_market q) (side_of (oq_buy q)) (oq_price q)) (\<lambda>price0.
     sbind (pubkey_of_handle E (oq_account q)) (\<lambda>pub.
     sbind (take_draft q pub) (\<lambda>draft.
       let price = (case draft of None \<Rightarrow> price0 | Some d \<Rightarrow> o_price d);
           qty = (case draft of None \<Rightarrow> to_atomic (oq_qty q) | Some d \<Rightarrow> o_qty d);
           signed_price = (if oq_is_market q then 0 else price)
       in sthen (check_signed q pub) (
          sbind (slift (order_msg q qty signed_price)) (\<lambda>msg.
            if c_require_sig E \<and> pub \<noteq> None \<and> oq_sig q \<noteq> [] \<and> \<not> verify_order_sig E (the pub) msg (oq_sig q)
            then sraise (ValueError ''bad order signature'')
            else sthen (check_seq E q) (
                 sthen (check_funds E q price qty) (
                 sthen (check_open E q) (place_order E q price qty pub signed_price draft))))))))) "

end
