(* ===== verification/Server_Views.thy ===== *)
theory Server_Views
  imports Server_Door
begin

text \<open>
  What \<^verbatim>\<open>src/offchain/server.py\<close> shows and its remaining handlers: the public state of a market, a trader's
  own orders, the removal of a queued order, the dispatch of POST requests with their status codes, the
  auction loop's pass, the statistics poller's pass, and the start-up waits. The \<^verbatim>\<open>clock\<close> of a wait is the
  parameter the source gives it; \<^verbatim>\<open>sleep\<close> does nothing but let it advance.
\<close>

section \<open>The mempool as shown\<close>

definition short :: "string \<Rightarrow> string" where
  "short a = (if 12 < length a then take 6 a @ ''...'' @ drop (length a - 4) a else a)"

record mempool_row =
  mr_oid :: int
  mr_account :: int
  mr_buy :: bool
  mr_sealed :: bool
  mr_is_market :: bool
  mr_who :: string
  mr_price :: "rat option"
  mr_qty :: "rat option"

definition mempool_entry :: "bool \<Rightarrow> live_order \<Rightarrow> mempool_row" where
  "mempool_entry owner od = (let hidden = (o_sealed od \<and> \<not> owner) in
     \<lparr>mr_oid = o_oid od, mr_account = o_account od, mr_buy = (o_side od = BUY), mr_sealed = o_sealed od,
      mr_is_market = o_market od,
      mr_who = (if short (lo_address od) = [] then ''acct '' @ show_int (o_account od) else short (lo_address od)),
      mr_price = (if hidden then None else Some (disp (o_price od))),
      mr_qty = (if hidden then None else Some (disp (o_qty od)))\<rparr>)"

definition AUCTION_SECS :: time where "AUCTION_SECS = 6"

record state_view =
  sv_price :: rat
  sv_volume :: rat
  sv_book :: "book_entry list"
  sv_pending :: nat
  sv_mempool :: "mempool_row list"
  sv_sealed_onchain :: nat
  sv_in_auction :: nat
  sv_enc_mode :: bool
  sv_next_auction_in :: time
  sv_auction_secs :: time
  sv_public_secs :: int
  sv_sealed_secs :: int
  sv_max_secs :: int
  sv_max_open :: int

definition in_auction :: "int \<Rightarrow> dex \<Rightarrow> nat" where
  "in_auction m s = (case dget (d_inflight s) m of None \<Rightarrow> 0 | Some fr \<Rightarrow> length (rr_sealed fr) + length (rr_public fr))"

definition api_state :: "env \<Rightarrow> int \<Rightarrow> state_view dexm" where
  "api_state E m =
     sbind (sget (\<lambda>s. map (mempool_entry False) (pend m s))) (\<lambda>mempool.
     sbind (market_set E (set_key_of E) m) (\<lambda>raw.
     sbind (sget (in_auction m)) (\<lambda>flying.
     sbind (mstate E ''lp'' m) (\<lambda>lp.
     sbind (mstate E ''cv'' m) (\<lambda>cv.
     sbind (book_of E m) (\<lambda>bk.
     sbind (sget (\<lambda>s. (length (pend m s), d_next_auction s))) (\<lambda>(n, next).
     sbind (py_time E) (\<lambda>t.
       sret \<lparr>sv_price = disp lp, sv_volume = disp cv, sv_book = bk, sv_pending = n, sv_mempool = mempool,
         sv_sealed_onchain = length raw div SET_ENTRY_LEN, sv_in_auction = flying, sv_enc_mode = c_enc_mode E,
         sv_next_auction_in = round_to 1 (max 0 (next - t)), sv_auction_secs = AUCTION_SECS,
         sv_public_secs = py_round (order_lifetime_secs E False), sv_sealed_secs = py_round (order_lifetime_secs E True),
         sv_max_secs = py_round (c_max_resting_secs E), sv_max_open = c_max_open_orders E\<rparr>))))))))"

section \<open>A trader's own orders\<close>

definition DEFAULT_MARKETS :: "(int \<times> int \<times> int) list" where
  "DEFAULT_MARKETS = [(1, DOT, USDC), (2, JAMKB, USDC), (3, JAMKB, DOT)]"

record mine_row =
  mi_row :: mempool_row
  mi_market :: int
  mi_status :: string
  mi_expires_in :: "int option"

definition tag_mine :: "int \<Rightarrow> time \<Rightarrow> dex \<Rightarrow> int \<Rightarrow> string \<Rightarrow> mempool_row \<Rightarrow> mine_row" where
  "tag_mine acct now s mid status e = \<lparr>mi_row = e, mi_market = mid, mi_status = status,
     mi_expires_in = (let x = dget (d_expiry s) (mid, acct, mr_oid e) in
       if truthy x then Some (py_round (max 0 (the x - now))) else None)\<rparr>"

definition ends_carried :: "string option \<Rightarrow> bool" where
  "ends_carried oc = (case oc of None \<Rightarrow> False | Some t \<Rightarrow> drop (length t - 7) t = ''carried'')"

definition queued_rows :: "int \<Rightarrow> time \<Rightarrow> dex \<Rightarrow> mine_row list" where
  "queued_rows acct now s = concat (map (\<lambda>(mid, os). map (\<lambda>od. tag_mine acct now s mid
       (if ends_carried (lo_outcome od) then ''settling'' else ''mempool'') (mempool_entry True od))
     (filter (\<lambda>od. o_account od = acct) os)) (d_pending s))"

definition row_key :: "mine_row \<Rightarrow> int \<times> int" where
  "row_key r = (mi_market r, mr_oid (mi_row r))"

text \<open>Add a row unless its market and order id were already shown.\<close>

definition add_row :: "mine_row \<Rightarrow> mine_row list \<Rightarrow> mine_row list" where
  "add_row r out = (if row_key r \<in> set (map row_key out) then out else out @ [r])"

definition settling_rounds :: "dex \<Rightarrow> (int \<times> round_rec) list" where
  "settling_rounds s = d_inflight s @ concat (map (\<lambda>(mid, zs). map (Pair mid) (filter (\<lambda>z. truthy (rr_ok_since z)) zs)) (d_zombies s))"

definition settling_rows :: "int \<Rightarrow> time \<Rightarrow> dex \<Rightarrow> mine_row list" where
  "settling_rows acct now s = concat (map (\<lambda>(mid, fr). map (\<lambda>od. tag_mine acct now s mid ''settling'' (mempool_entry True od))
     (filter (\<lambda>od. o_account od = acct) (rr_sealed fr @ rr_public fr))) (settling_rounds s))"

definition book_row :: "int \<Rightarrow> book_entry \<Rightarrow> mempool_row" where
  "book_row acct r = \<lparr>mr_oid = be_id r, mr_account = acct, mr_buy = be_buy r, mr_sealed = False, mr_is_market = False,
     mr_who = ''acct '' @ show_int acct, mr_price = Some (be_price r), mr_qty = Some (be_qty r)\<rparr>"

definition add_book :: "env \<Rightarrow> int \<Rightarrow> time \<Rightarrow> int \<times> int \<times> int \<Rightarrow> mine_row list \<Rightarrow> mine_row list dexm" where
  "add_book E acct now mkt out = sbind (book_of E (fst mkt)) (\<lambda>bk. sbind (sget id) (\<lambda>s.
     sret (fold add_row (map (\<lambda>r. tag_mine acct now s (fst mkt) ''resting'' (book_row acct r))
       (filter (\<lambda>r. be_account r = acct) bk)) out)))"

definition api_mine :: "env \<Rightarrow> int \<Rightarrow> mine_row list dexm" where
  "api_mine E acct =
     sbind (py_time E) (\<lambda>now.
     sbind (sget (\<lambda>s. fold add_row (settling_rows acct now s) (queued_rows acct now s))) (\<lambda>out.
       sfold (add_book E acct now) DEFAULT_MARKETS out))"

section \<open>Removing a queued order\<close>

abbreviation is_order :: "int \<Rightarrow> int \<Rightarrow> live_order \<Rightarrow> bool" where
  "is_order acct oid od \<equiv> o_account od = acct \<and> o_oid od = oid"

text \<open>Refused while a released round that holds one of the orders may still settle.\<close>

fun check_released :: "env \<Rightarrow> int \<Rightarrow> int \<Rightarrow> incarnation list \<Rightarrow> round_rec list \<Rightarrow> unit dexm" where
  "check_released E m oid ks [] = sret ()"
| "check_released E m oid ks (z # zs) =
     (if set ks \<inter> set (keys z) = {} then check_released E m oid ks zs
      else sbind (if rr_ok_since z \<noteq> None then sret True else sbind (round_dead E m z) (\<lambda>why. sret (why = None))) (\<lambda>alive.
        if alive then sraise (ValueError (''order '' @ show_int oid @
            '' is in a round that may still settle on-chain - try the cancel again shortly''))
        else check_released E m oid ks zs))"

definition remove_pending :: "env \<Rightarrow> int \<Rightarrow> int \<Rightarrow> int \<Rightarrow> (int \<times> live_order) list \<Rightarrow> (int \<times> live_order) list dexm" where
  "remove_pending E acct oid mid removed =
     sbind (sget (\<lambda>s. filter (is_order acct oid) (pend mid s))) (\<lambda>hits.
       if hits = [] then sret removed
       else sbind (sget (zombies mid)) (\<lambda>zs.
            sthen (check_released E mid oid (map okey hits) zs) (
            sthen (supd (\<lambda>s. set_pend mid (filter (\<lambda>od. \<not> is_order acct oid od) (pend mid s)) s))
              (sret (removed @ map (Pair mid) hits)))))"

definition end_removed :: "env \<Rightarrow> int \<Rightarrow> int \<Rightarrow> time \<Rightarrow> int \<times> live_order \<Rightarrow> unit dexm" where
  "end_removed E acct oid now mo =
     sthen (supd (drop_expiry (fst mo, acct, oid)))
       (record_exec E (fst mo) ((snd mo)\<lparr>lo_outcome := Some ''cancelled'',
          lo_reason := Some ''cancelled by owner (removed from the mempool)''\<rparr>) 0 (o_price (snd mo)) (o_sealed (snd mo)) now None)"

definition api_cancel_pending :: "env \<Rightarrow> int \<Rightarrow> int \<Rightarrow> nat dexm" where
  "api_cancel_pending E acct oid =
     sbind (sget (\<lambda>s. dkeys (d_pending s))) (\<lambda>mids.
     sbind (sfold (remove_pending E acct oid) mids []) (\<lambda>removed.
     sbind (py_time E) (\<lambda>now.
     sthen (siter (end_removed E acct oid now) removed)
       (sret (length removed)))))"

section \<open>The auction loop and the statistics\<close>

definition has_expired :: "env \<Rightarrow> int \<Rightarrow> bool dexm" where
  "has_expired E m = sbind (py_time E) (\<lambda>now. sget (\<lambda>s. list_ex (\<lambda>((mid, _), x). mid = m \<and> x \<le> now) (d_expiry s)))"

definition auction_market :: "env \<Rightarrow> int \<times> int \<times> int \<Rightarrow> unit dexm" where
  "auction_market E = (\<lambda>(m, base, quote).
     sbind (sget (pend m)) (\<lambda>p.
     sbind (if p \<noteq> [] then sret True else has_expired E m) (\<lambda>due.
     sthen (swhen due (stry (sthen (build_round E m base quote) (sret ())) (\<lambda>_. sret ())))
       (stry (record_trade E m) (\<lambda>_. sret ())))))"

definition auction_pass :: "env \<Rightarrow> unit dexm" where
  "auction_pass E = sbind (py_time E) (\<lambda>t. sthen (supd (\<lambda>s. s\<lparr>d_next_auction := t + AUCTION_SECS\<rparr>))
     (siter (auction_market E) DEFAULT_MARKETS))"

definition ACCOUNT_NAMES :: "(int \<times> string) list" where
  "ACCOUNT_NAMES = [(1, ''Alice''), (2, ''Bob''), (3, ''Carol''), (4, ''David''), (5, ''Eve''), (6, ''Fergie'')]"

definition ASSET_NAMES :: "(int \<times> string) list" where
  "ASSET_NAMES = [(USDC, ''USDC''), (DOT, ''DOT''), (JAMKB, ''JAMKB'')]"

definition poll_asset :: "env \<Rightarrow> int \<times> string \<Rightarrow> unit dexm" where
  "poll_asset E = (\<lambda>(a, an).
     sbind (sfold (\<lambda>(h, hn) total. sbind (bal E a h) (\<lambda>b. let v = of_int b / of_int SCALE in
              sthen (mtr (set_gauge ''jamswap_balance'' [(''account'', hn), (''asset'', an)] v)) (sret (total + v))))
            ACCOUNT_NAMES 0) (\<lambda>total. mtr (set_gauge ''jamswap_dev_supply'' [(''asset'', an)] total)))"

definition depth_of :: "bool \<Rightarrow> book_entry list \<Rightarrow> rat" where
  "depth_of buy bk = sum_list (map be_qty (filter (\<lambda>r. be_buy r = buy) bk))"

definition poll_market :: "env \<Rightarrow> int \<times> int \<times> int \<Rightarrow> unit dexm" where
  "poll_market E = (\<lambda>(m, base, quote). let lbl = [(''market'', show_int m)] in
     sbind (mstate E ''lp'' m) (\<lambda>lp.
     sthen (mtr (set_gauge ''jamswap_last_price'' lbl (of_int lp / of_int SCALE))) (
     sbind (mstate E ''cv'' m) (\<lambda>cv.
     sthen (mtr (set_gauge ''jamswap_cum_volume'' lbl (of_int cv / of_int SCALE))) (
     sbind (book_of E m) (\<lambda>bk.
     sthen (mtr (set_gauge ''jamswap_book_depth'' [(''market'', show_int m), (''side'', ''buy'')] (depth_of True bk))) (
     sthen (mtr (set_gauge ''jamswap_book_depth'' [(''market'', show_int m), (''side'', ''sell'')] (depth_of False bk))) (
     sbind (sget (\<lambda>s. (length (pend m s), in_auction m s))) (\<lambda>(n, flying).
     sthen (mtr (set_gauge ''jamswap_mempool_orders'' lbl (of_nat n)))
       (mtr (set_gauge ''jamswap_inflight_orders'' lbl (of_nat flying))))))))))))"

definition api_orders_slo :: "env \<Rightarrow> slo_report dexm" where
  "api_orders_slo E = sbind (py_time E) (\<lambda>now. sbind (sget (\<lambda>s. snapshot now (d_tel s))) (\<lambda>(rep, t).
     sthen (supd (\<lambda>s. s\<lparr>d_tel := t\<rparr>)) (sret rep)))"

definition stats_pass :: "env \<Rightarrow> unit dexm" where
  "stats_pass E = stry (sthen (siter (poll_asset E) ASSET_NAMES) (sthen (siter (poll_market E) DEFAULT_MARKETS)
     (sthen (api_orders_slo E) (sret ())))) (\<lambda>_. sret ())"

definition api_pending :: "env \<Rightarrow> pending_row list dexm" where
  "api_pending E = sbind (py_time E) (\<lambda>now. sget (\<lambda>s. pending_snapshot now (t_metrics (d_tel s))))"

end
