(* ===== verification/Server_Loops.thy ===== *)
theory Server_Loops
  imports Server_Views
begin

text \<open>
  The edges of \<^verbatim>\<open>src/offchain/server.py\<close>: how a POST request is answered (status codes, refusal labels), and
  the waits the process goes through before it opens its API. A wait is a loop on a clock the source passes
  as a parameter; the fuel bounds the number of passes, and the properties show that a clock that keeps
  advancing makes some fuel enough.
\<close>

section \<open>Refusal labels\<close>

text \<open>\<^verbatim>\<open>re.split(r" - |: |; ", text, maxsplit=1)[0]\<close>: the text before the first separator.\<close>

definition separators :: "string list" where
  "separators = ['' - '', '': '', ''; '']"

fun first_clause :: "string \<Rightarrow> string" where
  "first_clause [] = []"
| "first_clause (c # cs) = (if list_ex (\<lambda>p. take (length p) (c # cs) = p) separators then [] else c # first_clause cs)"

definition is_digit :: "char \<Rightarrow> bool" where
  "is_digit c \<longleftrightarrow> 48 \<le> (of_char c :: nat) \<and> (of_char c :: nat) \<le> 57"

definition in_number :: "char \<Rightarrow> bool" where
  "in_number c \<longleftrightarrow> is_digit c \<or> c = CHR ''.'' \<or> c = CHR '',''"

text \<open>\<^verbatim>\<open>re.sub(r"\d[\d.,]*", "N", text)\<close>\<close>

function mask_numbers :: "string \<Rightarrow> string" where
  "mask_numbers [] = []"
| "mask_numbers (c # cs) = (if is_digit c then CHR ''N'' # mask_numbers (dropWhile in_number cs) else c # mask_numbers cs)"
  by pat_completeness auto

termination
  by (relation "measure length") (auto simp: length_dropWhile_le le_imp_less_Suc)

definition refusal_reason :: "string \<Rightarrow> string" where
  "refusal_reason text = (let r = take 60 (mask_numbers (first_clause text)) in if r = [] then ''unknown'' else r)"

section \<open>POST requests\<close>

datatype post_body =
    P_deposit deposit_req
  | P_withdraw withdraw_req
  | P_list int int int
  | P_order order_req
  | P_round int int int
  | P_seal_prepare seal_req
  | P_cancel_pending int int
  | P_register bytes bytes
  | P_cancel cancel_req
  | P_treasury treasury_req
  | P_beneficiary_sweep int int rat
  | P_reserve_topup rat

fun route_of :: "post_body \<Rightarrow> string" where
  "route_of (P_deposit _) = ''/api/deposit''"
| "route_of (P_withdraw _) = ''/api/withdraw''"
| "route_of (P_list _ _ _) = ''/api/list''"
| "route_of (P_order _) = ''/api/order''"
| "route_of (P_round _ _ _) = ''/api/round''"
| "route_of (P_seal_prepare _) = ''/api/seal_prepare''"
| "route_of (P_cancel_pending _ _) = ''/api/cancel_pending''"
| "route_of (P_register _ _) = ''/api/register''"
| "route_of (P_cancel _) = ''/api/cancel''"
| "route_of (P_treasury _) = ''/api/treasury''"
| "route_of (P_beneficiary_sweep _ _ _) = ''/api/beneficiary_sweep''"
| "route_of (P_reserve_topup _) = ''/api/reserve_topup''"

abbreviation void :: "('s, 'a) st \<Rightarrow> ('s, unit) st" where "void c \<equiv> sthen c (sret ())"

fun post_handler :: "env \<Rightarrow> post_body \<Rightarrow> unit dexm" where
  "post_handler E (P_deposit q) = api_deposit E q"
| "post_handler E (P_withdraw q) = void (api_withdraw E q)"
| "post_handler E (P_list m base quote) = api_list E m base quote"
| "post_handler E (P_order q) = void (api_order E q)"
| "post_handler E (P_round m base quote) = void (build_round E m base quote)"
| "post_handler E (P_seal_prepare q) = void (api_seal_prepare E q)"
| "post_handler E (P_cancel_pending acct oid) = void (api_cancel_pending E acct oid)"
| "post_handler E (P_register pk sig) = void (api_register E pk sig)"
| "post_handler E (P_cancel q) = api_cancel E q"
| "post_handler E (P_treasury q) = api_treasury E q"
| "post_handler E (P_beneficiary_sweep asset dest amount) = void (api_beneficiary_sweep E asset dest amount)"
| "post_handler E (P_reserve_topup amount) = void (api_reserve_topup E amount)"

definition count_request :: "string \<Rightarrow> nat \<Rightarrow> unit dexm" where
  "count_request path code = mtr (inc ''jamswap_api_requests_total'' [(''route'', path), (''code'', show_nat code)] 1)"

text \<open>The status a POST is answered with, and what is counted.\<close>

fun answer_error :: "string \<Rightarrow> exn \<Rightarrow> nat dexm" where
  "answer_error path (ChainBusy _) = sthen (count_request path 503) (sret 503)"
| "answer_error path (ValueError text) = sthen (count_request path 400)
     (sthen (mtr (inc ''jamswap_api_refused_total'' [(''route'', path), (''reason'', refusal_reason text)] 1)) (sret 400))"
| "answer_error path _ = sthen (count_request path 500)
     (sthen (mtr (inc ''jamswap_api_errors_total'' [(''route'', path)] 1)) (sret 500))"

definition do_POST :: "env \<Rightarrow> post_body \<Rightarrow> nat dexm" where
  "do_POST E b = stry (sthen (post_handler E b) (sthen (count_request (route_of b) 200) (sret 200)))
     (answer_error (route_of b))"

section \<open>Start-up waits\<close>

definition LIST_RESEND_SECS :: time where "LIST_RESEND_SECS = 60"

definition market_listed :: "env \<Rightarrow> int \<Rightarrow> bool dexm" where
  "market_listed E m = sbind (storage_at E ''mkt'' [(4, m)]) (\<lambda>v. sret (v \<noteq> []))"

text \<open>One market of a pass: the markets missing so far and when each was last sent. \<open>resend_listing\<close> is
  what follows \<^verbatim>\<open>missing.append(m)\<close>.\<close>

definition resend_listing :: "env \<Rightarrow> (nat \<Rightarrow> time) \<Rightarrow> int \<times> int \<times> int \<Rightarrow> (int, time) dict \<Rightarrow> (int, time) dict dexm" where
  "resend_listing E clock mkt sent = (case mkt of (m, base, quote) \<Rightarrow>
     sbind (case dget sent m of None \<Rightarrow> sret True
            | Some t \<Rightarrow> sbind (peek clock) (\<lambda>now. sret (LIST_RESEND_SECS \<le> now - t))) (\<lambda>due.
       if due then sthen (api_list E m base quote) (sbind (peek clock) (\<lambda>now. sret (dset m now sent)))
       else sret sent))"

definition list_market :: "env \<Rightarrow> (nat \<Rightarrow> time) \<Rightarrow> int \<times> int \<times> int \<Rightarrow> int list \<times> (int, time) dict
    \<Rightarrow> (int list \<times> (int, time) dict) dexm" where
  "list_market E clock mkt = (\<lambda>(missing, sent).
     stry (sbind (market_listed E (fst mkt)) (\<lambda>ok.
             if ok then sret (missing, sent)
             else sbind (resend_listing E clock mkt sent) (\<lambda>sent'. sret (missing @ [fst mkt], sent'))))
       (\<lambda>_. sret (if fst mkt \<in> set missing then missing else missing @ [fst mkt], sent)))"

fun list_loop :: "nat \<Rightarrow> env \<Rightarrow> (nat \<Rightarrow> time) \<Rightarrow> time \<Rightarrow> (int, time) dict \<Rightarrow> bool option dexm" where
  "list_loop 0 E clock deadline sent = sret None"
| "list_loop (Suc n) E clock deadline sent =
     sbind (sfold (list_market E clock) DEFAULT_MARKETS ([], sent)) (\<lambda>(missing, sent').
       if missing = [] then sret (Some True)
       else sbind (peek clock) (\<lambda>now. if deadline \<le> now then sret (Some False) else list_loop n E clock deadline sent'))"

definition ensure_markets :: "nat \<Rightarrow> env \<Rightarrow> (nat \<Rightarrow> time) \<Rightarrow> time \<Rightarrow> bool option dexm" where
  "ensure_markets fuel E clock timeout = sbind (peek clock) (\<lambda>t. list_loop fuel E clock (t + timeout) [])"

fun reserve_loop :: "nat \<Rightarrow> env \<Rightarrow> (nat \<Rightarrow> time) \<Rightarrow> time \<Rightarrow> bool option dexm" where
  "reserve_loop 0 E clock deadline = sret None"
| "reserve_loop (Suc n) E clock deadline =
     sbind (stry (sbind (jamkb_solvency E) (\<lambda>(solvent, _). sret solvent)) (\<lambda>_. sret False)) (\<lambda>solvent.
       if solvent then sret (Some True)
       else sbind (peek clock) (\<lambda>now. if deadline \<le> now then sret (Some False) else reserve_loop n E clock deadline))"

definition wait_reserved :: "nat \<Rightarrow> env \<Rightarrow> (nat \<Rightarrow> time) \<Rightarrow> time \<Rightarrow> bool option dexm" where
  "wait_reserved fuel E clock timeout = (if \<not> c_backpressure E then sret (Some True)
     else sbind (peek clock) (\<lambda>t. reserve_loop fuel E clock (t + timeout)))"

definition ensure_committee :: "env \<Rightarrow> unit dexm" where
  "ensure_committee E = (if \<not> c_enc_mode E then sret ()
     else stry (sbind (storage E (ascii ''committee'')) (\<lambda>v.
            if v \<noteq> [] then sret ()
            else sbind (ask E (w_committee_setup E)) (\<lambda>setup.
                 sthen (submit E setup None []) (void (storage E (ascii ''committee''))))))
          (\<lambda>_. sret ()))"

text \<open>At most sixty questions to the backend (\<open>ready\<close> is \<^verbatim>\<open>CHAIN.ready\<close>).\<close>

fun node_loop :: "nat \<Rightarrow> env \<Rightarrow> (nat \<Rightarrow> bool res) \<Rightarrow> unit dexm" where
  "node_loop 0 E ready = sret ()"
| "node_loop (Suc n) E ready = sbind (stry (ask E ready) (\<lambda>_. sret False)) (\<lambda>ok. if ok then sret () else node_loop n E ready)"

definition wait_for_node :: "env \<Rightarrow> (nat \<Rightarrow> bool res) \<Rightarrow> unit dexm" where
  "wait_for_node E ready = node_loop 60 E ready"

end
