(* ===== verification/Server_Frames.thy ===== *)
theory Server_Frames
  imports Server_Loops "HOL-Library.Sublist"
begin

text \<open>
  Frames of the server's state. \<open>state_frame\<close> is the interface of a relation between the state before and
  after a step that ignores what every call touches: the tick, the orders other threads append meanwhile,
  the telemetry, the finality cache and the object counter. A relation that meets it is kept by every
  read, submission and judgement of the server, proved once here; each interpretation adds the instances
  to \<open>keeps_intros\<close>. \<open>quiet\<close> is the strictest such relation used: nothing else changes.
\<close>

lemma keeps_sum [keeps_intros]:
  "(\<And>e. keeps P (f e)) \<Longrightarrow> (\<And>x. keeps P (g x)) \<Longrightarrow> keeps P (case v of Inl e \<Rightarrow> f e | Inr x \<Rightarrow> g x)"
  by (cases v) simp_all

locale state_frame =
  fixes E :: env and R :: "dex \<Rightarrow> dex \<Rightarrow> bool"
  assumes refl: "R s s"
    and trans: "R s t \<Longrightarrow> R t u \<Longrightarrow> R s u"
    and arrive: "R s (arrive E s)"
    and tick: "d_tick s \<le> n \<Longrightarrow> R s (s\<lparr>d_tick := n\<rparr>)"
    and telemetry: "R s (s\<lparr>d_tel := x\<rparr>)"
    and uid: "R s (s\<lparr>d_uid := Suc (d_uid s)\<rparr>)"
    and cache: "R s (s\<lparr>d_fin_cache := c\<rparr>)"
    and track: "R s (s\<lparr>d_fin_track := f\<rparr>)"
begin

lemma supd_frame [keeps_intros]: "(\<And>t. R t (u t)) \<Longrightarrow> keeps (R s) (supd u)"
  by (rule keeps_supd) (rule trans)

lemma keeps_frame: "(\<And>t. R t (snd (c t))) \<Longrightarrow> keeps (R s) c"
  by (rule keepsI) (rule trans)

lemma frameD: "keeps (R s) c \<Longrightarrow> R s (snd (c s))"
  by (erule keepsD) (rule refl)

lemma prims [keeps_intros]:
  "keeps (R s) (ask E f)" "keeps (R s) (peek g)" "keeps (R s) (mtr h)" "keeps (R s) fresh_uid"
  by (rule keeps_frame, simp add: ask_def peek_def mtr_def fresh_uid_def supd_def arrive tick telemetry uid)+

lemma tel_frame [keeps_intros]: "keeps (R s) (tel E f)"
proof (rule keeps_frame)
  fix t
  have "R t (t\<lparr>d_tel := x, d_tick := d_tick t + 3\<rparr>)" for x
    using trans [OF telemetry [of t x] tick [of "t\<lparr>d_tel := x\<rparr>" "d_tick t + 3"]] by simp
  then show "R t (snd (tel E f t))" by (simp add: tel_def supd_def)
qed

lemma reads [keeps_intros]:
  "keeps (R s) (storage E k)" "keeps (R s) (storage_at E p fs)" "keeps (R s) (bal E a b)"
  "keeps (R s) (handle_of E pk)" "keeps (R s) (nonce_of E b)" "keeps (R s) (mstate E p m)"
  "keeps (R s) (landed_slot E rid)" "keeps (R s) (storage_final E k)" "keeps (R s) (landed_final E rid)"
  "keeps (R s) (seq_floor E a)" "keeps (R s) (market_set E p' m)" "keeps (R s) (book_of E m)"
  unfolding storage_at_def mstate_def landed_slot_def landed_final_def seq_floor_def market_set_def book_of_def
    storage_final_def storage_def bal_def handle_of_def nonce_of_def
  by (intro keeps_intros | simp split: exn.split add: keeps_intros)+

lemma finality_frame [keeps_intros]:
  "keeps (R s) (read_finality E now)" "keeps (R s) (finality_advancing E t)"
proof -
  show f: "keeps (R s) (read_finality E now)" for now
    unfolding read_finality_def refetch_finality_def fetch_finality_def
    by (intro keeps_intros; (rule cache | rule track))
  show "keeps (R s) (finality_advancing E t)"
    unfolding finality_advancing_def by (intro keeps_intros f)
qed

lemma submit_frame [keeps_intros]: "keeps (R s) (submit E p c d)"
  unfolding submit_def Let_def by (intro keeps_intros; simp split: exn.split add: keeps_intros)

lemma confirmed_frame [keeps_intros]: "keeps (R s) (confirmed E rec now)"
  unfolding confirmed_def settle_hold_secs_def
  by (intro keeps_intros; simp split: option.split bool.split add: keeps_intros)

lemma seal_frame [keeps_intros]:
  "keeps (R s) (seal_material E m od)" "keeps (R s) (send_carry E m od)" "keeps (R s) (post_carry_seal E m od)"
  unfolding post_carry_seal_def seal_material_def send_carry_def by (intro keeps_intros)+

lemma floor_frame [keeps_intros]: "keeps (R s) (floor_passed E fs)"
  by (induction fs) (auto intro!: keeps_intros)

lemma dead_frame [keeps_intros]: "keeps (R s) (round_dead E m fr)"
  unfolding round_dead_def by (intro keeps_intros)

lemma rival_frame [keeps_intros]: "keeps (R s) (rival_landed E m fr)"
proof -
  have "keeps (R s) (rival_among E fr os)" for os by (induction os) (auto intro!: keeps_intros)
  then show ?thesis unfolding rival_landed_def by (intro keeps_intros)
qed

lemma revert_frame [keeps_intros]: "keeps (R s) (revert_tel E m fr)" "keeps (R s) (requeue_tel E m od)"
  "keeps (R s) (stage_seconds m st x)"
  unfolding revert_tel_def requeue_tel_def stage_seconds_def by (intro keeps_intros)+

end

section \<open>Arrivals\<close>

definition arrivals :: "(int \<times> live_order) list \<Rightarrow> dex \<Rightarrow> dex" where
  "arrivals xs s = fold (\<lambda>(m, od). new_object m od) xs s"

lemma arrivals_simps: "arrivals [] s = s" "arrivals (x # xs) s = arrivals xs (new_object (fst x) (snd x) s)"
  by (simp_all add: arrivals_def case_prod_beta)

lemma arrivals_frame: "d_zombies (arrivals xs s) = d_zombies s" "d_ended (arrivals xs s) = d_ended s"
    "d_inflight (arrivals xs s) = d_inflight s" "d_expiry (arrivals xs s) = d_expiry s" "d_execs (arrivals xs s) = d_execs s"
    "d_carry_retry (arrivals xs s) = d_carry_retry s" "d_seal_drafts (arrivals xs s) = d_seal_drafts s"
  by (induction xs arbitrary: s) (simp_all add: arrivals_simps, simp_all add: new_object_def)

lemma arrive_arrivals: "arrive E s = (arrivals (w_arrive E (d_tick s)) s)\<lparr>d_tick := d_tick s + 1\<rparr>"
  by (simp add: arrive_def arrivals_def)

lemma prefix_new_object: "prefix (pend m s) (pend m (new_object m' od s))"
  by (simp add: new_object_def enqueue_def)

lemma prefix_arrivals: "prefix (pend m s) (pend m (arrivals xs s))"
proof (induction xs arbitrary: s)
  case (Cons x xs)
  then show ?case unfolding arrivals_simps by (meson prefix_new_object prefix_order.trans)
qed (simp add: arrivals_simps)

section \<open>Quiet steps\<close>

definition quiet :: "dex \<Rightarrow> dex \<Rightarrow> bool" where
  "quiet s t \<longleftrightarrow> (\<forall>m. prefix (pend m s) (pend m t)) \<and> d_expiry t = d_expiry s \<and> d_carry_retry t = d_carry_retry s \<and>
     d_inflight t = d_inflight s \<and> d_zombies t = d_zombies s \<and> d_execs t = d_execs s"

lemma quiet_same:
  "d_pending t = d_pending s \<Longrightarrow> d_expiry t = d_expiry s \<Longrightarrow> d_carry_retry t = d_carry_retry s \<Longrightarrow>
     d_inflight t = d_inflight s \<Longrightarrow> d_zombies t = d_zombies s \<Longrightarrow> d_execs t = d_execs s \<Longrightarrow> quiet s t"
  by (simp add: quiet_def)

lemma quiet_trans: "quiet s t \<Longrightarrow> quiet t u \<Longrightarrow> quiet s u"
  unfolding quiet_def by (metis prefix_order.trans)

lemma quiet_arrive: "quiet s (arrive E s)"
  using prefix_arrivals [where s = s and xs = "w_arrive E (d_tick s)"] by (simp add: quiet_def arrive_arrivals arrivals_frame)

interpretation quiet: state_frame E quiet for E
  by unfold_locales (rule quiet_same quiet_arrive quiet_trans; simp)+

text \<open>Two more frames: the tick never goes back, and the sealed drafts stay as they are.\<close>

definition later :: "dex \<Rightarrow> dex \<Rightarrow> bool" where
  "later s t \<longleftrightarrow> d_tick s \<le> d_tick t"

interpretation later: state_frame E later for E
  by unfold_locales (simp_all add: later_def arrive_arrivals)

definition same_drafts :: "dex \<Rightarrow> dex \<Rightarrow> bool" where
  "same_drafts s t \<longleftrightarrow> d_seal_drafts t = d_seal_drafts s"

interpretation drafts: state_frame E same_drafts for E
  by unfold_locales (simp_all add: same_drafts_def arrive_arrivals arrivals_frame)

end
