(* ===== verification/Server_Zero_Loss.thy ===== *)
theory Server_Zero_Loss
  imports Server_Frames
begin

text \<open>
  No order is lost while its round is built, whatever the chain answers. \<open>steady E m s t\<close> is what every
  step of a build keeps: an order of the mempool stays there unless a released round that landed claims
  it, released rounds keep their orders and identity, and what was ended stays ended.
\<close>

section \<open>What every step keeps\<close>

definition marker_read :: "env \<Rightarrow> bytes \<Rightarrow> bool" where
  "marker_read E rid \<longleftrightarrow> (\<exists>t v. w_read E t (ascii ''rl'' @ rid) = Inr v \<and> 4 \<le> length v)"

text \<open>The landed marker of the round was seen, earlier or now.\<close>

definition sighted :: "env \<Rightarrow> round_rec \<Rightarrow> bool" where
  "sighted E z \<longleftrightarrow> rr_ok_since z \<noteq> None \<or> marker_read E (rr_rid z)"

definition claimed :: "env \<Rightarrow> int \<Rightarrow> dex \<Rightarrow> incarnation \<Rightarrow> bool" where
  "claimed E m s k \<longleftrightarrow> (\<exists>z\<in>set (zombies m s). k \<in> set (keys z) \<and> sighted E z)"

definition queued :: "int \<Rightarrow> dex \<Rightarrow> incarnation \<Rightarrow> bool" where
  "queued m s k \<longleftrightarrow> k \<in> okey ` set (pend m s)"

definition same_round :: "env \<Rightarrow> round_rec \<Rightarrow> round_rec \<Rightarrow> bool" where
  "same_round E z z' \<longleftrightarrow> keys z' = keys z \<and> rr_rid z' = rr_rid z \<and> (rr_ok_since z' \<noteq> None \<longrightarrow> sighted E z)"

definition steady :: "env \<Rightarrow> int \<Rightarrow> dex \<Rightarrow> dex \<Rightarrow> bool" where
  "steady E m s t \<longleftrightarrow> (\<forall>k. queued m s k \<longrightarrow> queued m t k \<or> claimed E m s k) \<and>
     (\<forall>z'\<in>set (zombies m t). \<exists>z\<in>set (zombies m s). same_round E z z') \<and> set (d_ended s) \<subseteq> set (d_ended t)"

lemma same_round_refl [simp]: "same_round E z z"
  by (simp add: same_round_def sighted_def)

lemma steady_refl [simp]: "steady E m s s"
  by (auto simp: steady_def intro: same_round_refl)

lemma same_round_trans: "same_round E a b \<Longrightarrow> same_round E b c \<Longrightarrow> same_round E a c"
  by (auto simp: same_round_def sighted_def)

lemma claimed_back: "steady E m s t \<Longrightarrow> claimed E m t k \<Longrightarrow> claimed E m s k"
  unfolding steady_def claimed_def same_round_def sighted_def by metis

lemma steadyI:
  "(\<And>k. queued m s k \<Longrightarrow> queued m t k \<or> claimed E m s k) \<Longrightarrow>
   (\<And>z'. z' \<in> set (zombies m t) \<Longrightarrow> \<exists>z\<in>set (zombies m s). same_round E z z') \<Longrightarrow>
   set (d_ended s) \<subseteq> set (d_ended t) \<Longrightarrow> steady E m s t"
  by (simp add: steady_def)

lemma steadyD:
  assumes "steady E m s t"
  shows "queued m s k \<Longrightarrow> queued m t k \<or> claimed E m s k"
    and "z' \<in> set (zombies m t) \<Longrightarrow> \<exists>z\<in>set (zombies m s). same_round E z z'"
    and "set (d_ended s) \<subseteq> set (d_ended t)"
  using assms unfolding steady_def by blast+

lemma steady_trans:
  assumes st: "steady E m s t" and tu: "steady E m t u"
  shows "steady E m s u"
proof (rule steadyI)
  fix k
  assume "queued m s k"
  then show "queued m u k \<or> claimed E m s k"
    using steadyD(1) [OF st] steadyD(1) [OF tu] claimed_back [OF st] by blast
next
  fix z'
  assume "z' \<in> set (zombies m u)"
  then obtain z where z: "z \<in> set (zombies m t)" "same_round E z z'" using steadyD(2) [OF tu] by blast
  then obtain y where "y \<in> set (zombies m s)" "same_round E y z" using steadyD(2) [OF st] by blast
  then show "\<exists>z\<in>set (zombies m s). same_round E z z'" using same_round_trans z(2) by blast
next
  show "set (d_ended s) \<subseteq> set (d_ended u)" using steadyD(3) [OF st] steadyD(3) [OF tu] by (rule order_trans)
qed

text \<open>A change of the state that touches neither the market's queue nor its released rounds.\<close>

lemma steady_frame:
  "(\<And>k. queued m s k \<Longrightarrow> queued m t k) \<Longrightarrow> d_zombies t = d_zombies s \<Longrightarrow> d_ended t = d_ended s \<Longrightarrow> steady E m s t"
  by (auto simp: steady_def intro: same_round_refl)

lemma steady_keepsI: "(\<And>t. steady E m t (snd (c t))) \<Longrightarrow> keeps (steady E m s) c"
  by (rule keepsI) (rule steady_trans)

lemma queued_new_object: "queued m s k \<Longrightarrow> queued m (new_object m' od s) k"
  by (auto simp: queued_def new_object_def enqueue_def)

lemma queued_arrivals: "queued m s k \<Longrightarrow> queued m (arrivals xs s) k"
proof (induction xs arbitrary: s)
  case (Cons x xs)
  then show ?case unfolding arrivals_simps by (intro Cons.IH queued_new_object)
qed (simp add: arrivals_simps)

lemma queued_frame: "d_pending t = d_pending s \<Longrightarrow> queued m s k \<Longrightarrow> queued m t k"
  by (simp add: queued_def)

lemma steady_same: "d_pending t = d_pending s \<Longrightarrow> d_zombies t = d_zombies s \<Longrightarrow> d_ended t = d_ended s \<Longrightarrow> steady E m s t"
  by (rule steady_frame) (auto intro: queued_frame)

lemma steady_arrive: "steady E m s (arrive E s)"
proof (rule steady_frame)
  show "queued m (arrive E s) k" if "queued m s k" for k
    using queued_arrivals [OF that, of "w_arrive E (d_tick s)"] by (simp add: arrive_arrivals queued_def)
qed (simp_all add: arrive_arrivals arrivals_frame)

interpretation steady: state_frame E "steady E m" for E m
  by unfold_locales (rule steady_refl steady_same steady_arrive steady_trans; simp)+

section \<open>Finalizing a round\<close>

lemma steady_carry [keeps_intros]: "keeps (steady E m s) (carry_sealed_remainders E m' sealed fills now)"
proof -
  have q: "steady E m t (queue_retry m' r t)" for t r by (rule steady_same) (simp_all add: queue_retry_def)
  have p: "steady E m t (t\<lparr>d_pending := dset m' (pend m' t @ carried) (d_pending t)\<rparr>)" for t carried
    by (rule steady_frame) (auto simp: queued_def)
  show ?thesis
    unfolding carry_sealed_remainders_def carry_order_def Let_def
    by (intro keeps_intros; (rule q p)?; simp split: option.split prod.split add: keeps_intros q)
qed

lemma steady_record_exec [keeps_intros]: "keeps (steady E m s) (record_exec E m' od filled price sealed now landing)"
  unfolding record_exec_def Let_def
  by (intro keeps_intros; (rule steady_same)?; simp add: add_exec_def split: prod.split)

lemma steady_record_executions [keeps_intros]: "keeps (steady E m s) (record_executions E m' resting reveal public c rid)"
  unfolding record_executions_def record_submitted_def record_maker_def rests_def landing_of_def Let_def
  by (intro keeps_intros)

lemma steady_finalize [keeps_intros]: "keeps (steady E m s) (finalize_round E m' fr)"
proof -
  have g: "steady E m t (grow_enc_cap E m' fr t)" for t
    by (rule steady_same) (auto simp: grow_enc_cap_def Let_def split: option.split)
  have d: "steady E m t (drop_expiry k t)" for t k
    by (rule steady_same) (simp_all add: drop_expiry_def)
  show ?thesis
    unfolding finalize_round_def end_pruned_def stage_seconds_def
    by (intro keeps_intros; rule g d)
qed

section \<open>Released rounds\<close>

lemma landed_slot_marker: "landed_slot E rid s = (Inr (Some slot), t) \<Longrightarrow> marker_read E rid"
  by (auto simp: landed_slot_def storage_def ask_def st_simps marker_read_def split: sum.splits if_splits)

lemma zombies_map_records: "zombies m (map_records m f s) = map f (zombies m s)"
  by (simp add: map_records_def dget_or_def map_ran_conv split: option.split)

lemma zombies_set_zombie: "zombies m (set_zombie m z f s) = map (\<lambda>y. if y = z then f y else y) (zombies m s)"
  by (simp add: set_zombie_def dget_or_def map_ran_conv split: option.split)

lemma zombies_set_zombies: "zombies m (set_zombies m zs s) = zs"
  by (simp add: set_zombies_def dget_or_def)

lemma same_round_upd:
  "keys (f z) = keys z \<Longrightarrow> rr_rid (f z) = rr_rid z \<Longrightarrow> rr_ok_since (f z) = rr_ok_since z \<Longrightarrow> same_round E z (f z)"
  by (simp add: same_round_def sighted_def)

lemma steady_map:
  assumes "\<And>k. queued m s k \<Longrightarrow> queued m t k \<or> claimed E m s k"
    and "zombies m t = map f (zombies m s)" and "\<And>z. z \<in> set (zombies m s) \<Longrightarrow> same_round E z (f z)"
    and "d_ended t = d_ended s"
  shows "steady E m s t"
proof (rule steadyI)
  fix z'
  assume "z' \<in> set (zombies m t)"
  then obtain z where "z \<in> set (zombies m s)" "z' = f z" unfolding assms(2) by auto
  then show "\<exists>z\<in>set (zombies m s). same_round E z z'" using assms(3) by blast
qed (use assms(1,4) in simp_all)

lemma note_claim_same: "same_round E fr (note_claim z fr)"
  by (simp add: note_claim_def same_round_def sighted_def keys_def)

lemma free_claim_same: "same_round E fr (free_claim z fr)"
  by (simp add: free_claim_def same_round_def sighted_def keys_def)

lemma steady_claim:
  assumes "y \<in> set (zombies m s)" and "keys y = keys z" and "rr_rid y = rr_rid z" and "marker_read E (rr_rid z)"
  shows "steady E m s (claim m z s)"
proof (rule steady_map)
  show "queued m (claim m z s) k \<or> claimed E m s k" if q: "queued m s k" for k
  proof (cases "k \<in> set (keys z)")
    case True
    then have "claimed E m s k" using assms unfolding claimed_def sighted_def by metis
    then show ?thesis ..
  next
    case False
    then show ?thesis using q by (auto simp: queued_def claim_def map_records_def)
  qed
  show "zombies m (claim m z s) = map (note_claim z) (zombies m s)"
    by (simp add: claim_def zombies_map_records)
  show "d_ended (claim m z s) = d_ended s" by (simp add: claim_def map_records_def)
qed (rule note_claim_same)

lemma steady_unclaim: "steady E m s (unclaim m z s)"
proof (rule steady_map)
  show "queued m (unclaim m z s) k \<or> claimed E m s k" if "queued m s k" for k
    using that by (auto simp: queued_def unclaim_def map_records_def Let_def)
  show "zombies m (unclaim m z s) = map (free_claim z) (zombies m s)"
    by (simp add: unclaim_def Let_def zombies_map_records)
  show "d_ended (unclaim m z s) = d_ended s" by (simp add: unclaim_def map_records_def Let_def)
qed (rule free_claim_same)

lemma steady_set_zombie:
  assumes "same_round E z (f z)"
  shows "steady E m s (set_zombie m z f s)"
proof (rule steady_map)
  show "queued m (set_zombie m z f s) k \<or> claimed E m s k" if "queued m s k" for k
    using that by (simp add: queued_def set_zombie_def)
  show "zombies m (set_zombie m z f s) = map (\<lambda>y. if y = z then f y else y) (zombies m s)"
    by (rule zombies_set_zombie)
  show "d_ended (set_zombie m z f s) = d_ended s" by (simp add: set_zombie_def)
qed (simp add: assms)

lemma steady_drop: "set zs \<subseteq> set (zombies m s) \<Longrightarrow> steady E m s (set_zombies m zs s)"
proof (rule steadyI)
  show "queued m (set_zombies m zs s) k \<or> claimed E m s k" if "queued m s k" for k
    using that by (simp add: queued_def set_zombies_def)
  show "\<exists>z\<in>set (zombies m s). same_round E z z'" if "set zs \<subseteq> set (zombies m s)" "z' \<in> set (zombies m (set_zombies m zs s))" for z'
    using that same_round_refl unfolding zombies_set_zombies by blast
  show "set (d_ended s) \<subseteq> set (d_ended (set_zombies m zs s))" by (simp add: set_zombies_def)
qed

text \<open>Composition that remembers what a step returned.\<close>

lemma steady_sbind:
  assumes "keeps (steady E m s) c" and "\<And>x t. c s = (Inr x, t) \<Longrightarrow> steady E m t (snd (f x t))"
  shows "steady E m s (snd (sbind c f s))"
proof -
  obtain r t where c: "c s = (r, t)" by (cases "c s")
  have st: "steady E m s t" using keepsD [OF assms(1), of s] c by simp
  show ?thesis
  proof (cases r)
    case (Inl e)
    then show ?thesis using st c by (simp add: st_simps)
  next
    case (Inr x)
    then show ?thesis using steady_trans [OF st assms(2)] c by (simp add: st_simps)
  qed
qed

lemma keeps_sames [keeps_intros]:
  "keeps (\<lambda>t. d_zombies t = d_zombies s) (landed_slot E rid)"
proof -
  have "d_zombies (snd (landed_slot E rid t)) = d_zombies t" for t
    by (simp add: landed_slot_def storage_def ask_def st_simps arrive_arrivals arrivals_frame split: sum.split)
  then show ?thesis by (simp add: keeps_def)
qed

text \<open>A read of the marker: what it returned is true of the chain, and the released rounds are as before.\<close>

lemma try_slot_res:
  assumes "try_slot E z s = (Inr r, t)"
  shows "r = Some (Some slot) \<Longrightarrow> marker_read E (rr_rid z)" and "d_zombies t = d_zombies s"
proof -
  obtain v u where l: "landed_slot E (rr_rid z) s = (v, u)" by (cases "landed_slot E (rr_rid z) s")
  have "d_zombies u = d_zombies s" using keepsD [OF keeps_sames [of s E "rr_rid z"] refl] l by simp
  then show "d_zombies t = d_zombies s" using assms l by (auto simp: try_slot_def st_simps split: sum.splits)
  assume "r = Some (Some slot)"
  then have "landed_slot E (rr_rid z) s = (Inr (Some slot), u)"
    using assms l by (auto simp: try_slot_def st_simps split: sum.splits)
  then show "marker_read E (rr_rid z)" by (rule landed_slot_marker)
qed

lemma steady_try_slot [keeps_intros]: "keeps (steady E m s) (try_slot E z)"
  unfolding try_slot_def by (intro keeps_intros)

lemma steady_first_sight:
  assumes "z \<in> set (zombies m s)" and "marker_read E (rr_rid z)"
  shows "steady E m s (claim m z (set_zombie m z (\<lambda>z. z\<lparr>rr_ok_since := Some now\<rparr>) s))"
    (is "steady E m s (claim m z ?t)")
proof (rule steady_trans)
  show "steady E m s ?t"
    by (rule steady_set_zombie) (use assms(2) in \<open>simp add: same_round_def sighted_def keys_def\<close>)
  have "z\<lparr>rr_ok_since := Some now\<rparr> \<in> set (zombies m ?t)"
    unfolding zombies_set_zombie using assms(1) by (auto intro!: image_eqI [where x = z])
  then show "steady E m ?t (claim m z ?t)"
    by (rule steady_claim) (simp_all add: keys_def assms(2))
qed

lemma steady_unsight:
  "steady E m s (unclaim m z (set_zombie m z (\<lambda>z. z\<lparr>rr_ok_since := None\<rparr>) s))"
  by (rule steady_trans [OF steady_set_zombie steady_unclaim]) (simp add: same_round_def keys_def)

lemma steady_two_steps:
  assumes "steady E m t (v (u t))" and "\<And>w. keeps (steady E m w) c"
  shows "steady E m t (snd (sthen (supd u) (sthen (supd v) c) t))"
  using steady_trans [OF assms(1) keepsD [OF assms(2) steady_refl]] by (simp add: st_simps)

lemma steady_act:
  assumes z: "z \<in> set (zombies m t)" and mk: "\<And>slot. r = Some (Some slot) \<Longrightarrow> marker_read E (rr_rid z)"
  shows "steady E m t (snd (act_zombie E m now z acc r t))"
proof -
  obtain taken keep where acc: "acc = (taken, keep)" by (cases acc)
  consider "r = None" | "r = Some None" | slot where "r = Some (Some slot)" by (metis option.exhaust)
  then show ?thesis
  proof cases
    case 1
    then show ?thesis by (simp add: act_zombie_def acc st_simps)
  next
    case 2
    then show ?thesis
      by (auto simp: act_zombie_def acc Let_def st_run intro!: steady_two_steps steady_unsight keeps_intros)
  next
    case (3 slot)
    have "keeps (steady E m t) (sbind (confirmed E z now) (\<lambda>ok.
             sbind (if ok then rival_landed E m z else sret True) (\<lambda>rival.
               if rival then sret (taken, keep @ [rr_uid z])
               else sthen (stry (finalize_round E m z) (\<lambda>_. sret ())) (sret (taken, keep)))))"
      by (intro keeps_intros)
    from keepsD [OF this steady_refl] show ?thesis
      using mk [of slot] z 3
      by (auto simp: act_zombie_def acc Let_def intro!: steady_two_steps steady_first_sight keeps_intros)
  qed
qed

lemma steady_judge: "z \<in> set (zombies m s) \<Longrightarrow> steady E m s (snd (judge_zombie E m now acc z s))"
proof (cases "rr_ok_since z = None \<and> c_zombie_watch_secs E < now - rr_abandoned_at z")
  case True
  then show ?thesis by (simp add: judge_zombie_def st_simps)
next
  case False
  assume z: "z \<in> set (zombies m s)"
  show ?thesis unfolding judge_zombie_def if_not_P [OF False]
  proof (rule steady_sbind [OF steady_try_slot], rule steady_act)
    fix r t
    assume r: "try_slot E z s = (Inr r, t)"
    show "z \<in> set (zombies m t)" using z try_slot_res(2) [OF r] by simp
    show "r = Some (Some slot) \<Longrightarrow> marker_read E (rr_rid z)" for slot by (rule try_slot_res(1) [OF r])
  qed
qed

lemma find_mem: "find P xs = Some x \<Longrightarrow> x \<in> set xs"
  by (auto simp: find_Some_iff)

lemma steady_judge_uid [keeps_intros]: "keeps (steady E m s) (judge_uid E m now u acc)"
proof (rule steady_keepsI)
  fix t
  show "steady E m t (snd (judge_uid E m now u acc t))"
  proof (cases "find (\<lambda>z. rr_uid z = u) (zombies m t)")
    case (Some z)
    then show ?thesis using steady_judge [OF find_mem [OF Some]] by (simp add: judge_uid_def st_simps)
  qed (simp add: judge_uid_def st_simps)
qed

lemma steady_resolve_zombies [keeps_intros]: "keeps (steady E m s) (resolve_zombies E now m)"
  unfolding resolve_zombies_def by (intro keeps_intros) (rule steady_drop, auto)

text \<open>The keys a sweep reports as taken belong to released rounds whose marker was read.\<close>

definition taken_ok :: "env \<Rightarrow> int \<Rightarrow> dex \<Rightarrow> incarnation list \<times> nat list \<Rightarrow> bool" where
  "taken_ok E m s acc \<longleftrightarrow> (\<forall>k\<in>set (fst acc). claimed E m s k)"

lemma sbind_Inr: "sbind c f s = (Inr y, t) \<longleftrightarrow> (\<exists>x u. c s = (Inr x, u) \<and> f x u = (Inr y, t))"
  by (auto simp: st_simps split: prod.splits sum.splits)

lemma sthen_Inr: "sthen c d s = (Inr y, t) \<longleftrightarrow> (\<exists>x u. c s = (Inr x, u) \<and> d u = (Inr y, t))"
  by (simp add: sthen_def sbind_Inr)

lemma act_taken:
  assumes "act_zombie E m now z acc r t = (Inr acc', u)"
  shows "set (fst acc') \<subseteq> set (fst acc) \<union> (if r \<noteq> None \<and> r \<noteq> Some None then set (keys z) else {})"
  using assms by (cases acc) (auto simp: act_zombie_def Let_def sbind_Inr sthen_Inr st_run split: option.splits if_splits)

lemma judge_uid_taken:
  assumes "judge_uid E m now u acc t = (Inr acc', v)" and st: "steady E m s t" and ok: "taken_ok E m s acc"
  shows "taken_ok E m s acc'"
proof (cases "find (\<lambda>z. rr_uid z = u) (zombies m t)")
  case None
  then show ?thesis using assms by (simp add: judge_uid_def st_simps)
next
  case (Some z)
  then have zt: "z \<in> set (zombies m t)" by (auto dest: find_mem)
  have j: "judge_zombie E m now acc z t = (Inr acc', v)" using assms(1) Some by (simp add: judge_uid_def st_simps)
  show ?thesis
  proof (cases "rr_ok_since z = None \<and> c_zombie_watch_secs E < now - rr_abandoned_at z")
    case True
    then show ?thesis using j ok by (simp add: judge_zombie_def st_simps)
  next
    case False
    then obtain r w where r: "try_slot E z t = (Inr r, w)" and a: "act_zombie E m now z acc r w = (Inr acc', v)"
      using j by (auto simp: judge_zombie_def sbind_Inr)
    have "claimed E m s k" if r1: "r \<noteq> None" "r \<noteq> Some None" and k: "k \<in> set (keys z)" for k
    proof -
      obtain slot where "r = Some (Some slot)" using r1 by (cases r) auto
      then have "marker_read E (rr_rid z)" by (rule try_slot_res(1) [OF r])
      then have "claimed E m t k" unfolding claimed_def sighted_def using zt k by (intro bexI [of _ z]) simp_all
      then show ?thesis by (rule claimed_back [OF st])
    qed
    note new = this
    show ?thesis unfolding taken_ok_def
    proof
      fix k
      assume "k \<in> set (fst acc')"
      then have "k \<in> set (fst acc) \<or> r \<noteq> None \<and> r \<noteq> Some None \<and> k \<in> set (keys z)"
        using subsetD [OF act_taken [OF a], of k] by (simp split: if_splits)
      then show "claimed E m s k" using new [of k] ok [unfolded taken_ok_def, THEN bspec, of k] by auto
    qed
  qed
qed

lemma sfold_inv:
  assumes "sfold f xs a s = (Inr b, t)" and "P a s"
    and "\<And>x a s a' t. P a s \<Longrightarrow> f x a s = (Inr a', t) \<Longrightarrow> P a' t"
  shows "P b t"
  using assms(1,2)
proof (induction xs arbitrary: a s)
  case (Cons x xs)
  from Cons.prems obtain a' u where "f x a s = (Inr a', u)" "sfold f xs a' u = (Inr b, t)" by (auto simp: sbind_Inr)
  then show ?case using Cons.IH assms(3) Cons.prems(2) by blast
qed (simp add: st_simps)

lemma resolve_zombies_taken:
  assumes "resolve_zombies E now m s = (Inr taken, t)" and "k \<in> set taken"
  shows "claimed E m s k"
proof -
  obtain keep u us where f: "sfold (judge_uid E m now) us ([], []) s = (Inr (taken, keep), u)"
    using assms(1) by (auto simp: resolve_zombies_def sbind_Inr sthen_Inr st_run split: prod.splits)
  have "steady E m s u \<and> taken_ok E m s (taken, keep)"
  proof (rule sfold_inv [OF f, where P = "\<lambda>a t. steady E m s t \<and> taken_ok E m s a"])
    show "steady E m s s \<and> taken_ok E m s ([], [])" by (simp add: taken_ok_def)
    fix x a w a' v
    assume w: "steady E m s w \<and> taken_ok E m s a" and j: "judge_uid E m now x a w = (Inr a', v)"
    show "steady E m s v \<and> taken_ok E m s a'"
      using judge_uid_taken [OF j] keepsD [OF steady_judge_uid [of E m s now x a], of w] j w by auto
  qed
  then show ?thesis using assms(2) by (simp add: taken_ok_def)
qed

section \<open>Assembling\<close>

lemma steady_note_ended: "steady E m s (note_ended k s)"
  by (rule steadyI) (auto simp: note_ended_def queued_def intro: same_round_refl)

lemma steady_drop_expiry: "steady E m s (drop_expiry k s)"
  by (rule steady_same) (simp_all add: drop_expiry_def)

lemma steady_end_dead [keeps_intros]: "keeps (steady E m s) (end_dead E m' now d)"
  unfolding end_dead_def Let_def by (intro keeps_intros; rule steady_note_ended steady_drop_expiry)

lemma steady_end_expired [keeps_intros]: "keeps (steady E m s) (end_expired E m' od)"
  unfolding end_expired_def by (intro keeps_intros; rule steady_note_ended steady_drop_expiry)

lemma steady_defer [keeps_intros]: "keeps (steady E m s) (defer_order E m' cs od)"
  unfolding defer_order_def by (intro keeps_intros)

lemma steady_price [keeps_intros]: "keeps (steady E m s) (price_public E m' public)"
  unfolding price_public_def by (intro keeps_intros; rule steady_same; simp)

lemma steady_sanitize [keeps_intros]: "keeps (steady E m s) (sanitize E public)"
  unfolding sanitize_def read_floors_def by (intro keeps_intros)

lemma steady_prepend: "steady E m s (set_pend m (os @ pend m s) s)"
  by (rule steady_frame) (auto simp: queued_def)

lemma steady_keep_crossing [keeps_intros]: "keeps (steady E m s) (keep_crossing m now sealed public resting)"
  unfolding keep_crossing_def Let_def by (intro keeps_intros; rule steady_prepend)

lemma steady_cool_down [keeps_intros]: "keeps (steady E m s) (cool_down E m')"
  unfolding cool_down_def by (intro keeps_intros; rule steady_same; simp)

lemma steady_build_record [keeps_intros]:
  "keeps (steady E m s) (build_record E m' base quote raw pruned resting set_key sealed public)"
  unfolding build_record_def round_payload_def Let_def by (intro keeps_intros)

lemma steady_idle [keeps_intros]: "keeps (steady E m s) (idle_reply E m' plan)"
  unfolding idle_reply_def by (intro keeps_intros)

lemma steady_finish [keeps_intros]: "keeps (steady E m s) (finish_round E m base quote now raw pruned plan resting set_key sealed public)"
  unfolding finish_round_def by (intro keeps_intros)

lemma steady_late_claims [keeps_intros]: "keeps (steady E m s) (late_claims E m)"
  unfolding late_claims_def by (intro keeps_intros)

lemma steady_assemble [keeps_intros]:
  "keeps (steady E m s) (assemble_round E m base quote now raw pruned plan resting cs set_key)"
  unfolding assemble_round_def Let_def by (intro keeps_intros)

text \<open>Where the orders of a plan are after the assembly.\<close>

lemma okey_price [simp]: "okey (od\<lparr>o_price := p\<rparr>) = okey od"
  by (simp add: okey_def)

lemma price_public_okeys:
  assumes "price_public E m public s = (Inr (priced, dead), t)" and "od \<in> set public"
  shows "okey od \<in> okey ` set priced \<or> okey od \<in> okey ` fst ` set dead"
proof -
  obtain lp where p: "price_market_orders (Inr lp) public = Inr (priced, dead)"
    using assms(1) by (auto simp: price_public_def sbind_Inr sthen_Inr st_run split: prod.splits)
  consider "filter o_market public = []" | "filter o_market public \<noteq> []" "lp \<le> 0" | "filter o_market public \<noteq> []" "\<not> lp \<le> 0"
    by blast
  then show ?thesis
  proof cases
    case 1
    then show ?thesis using p assms(2) by (simp add: price_market_orders_def)
  next
    case 2
    then have "priced = filter (\<lambda>od. \<not> o_market od) public" "dead = map (\<lambda>od. (od, NoLastPrice)) (filter o_market public)"
      using p by (simp_all add: price_market_orders_def)
    then show ?thesis using assms(2) by (cases "o_market od") (auto simp: image_image)
  next
    case 3
    then have "priced = map (\<lambda>od. if o_market od then od\<lparr>o_price := market_price (o_side od) lp\<rparr> else od) public"
      using p by (simp add: price_market_orders_def)
    then have "map okey priced = map okey public" by simp
    then have "okey ` set priced = okey ` set public" by (metis set_map)
    then show ?thesis using assms(2) by simp
  qed
qed

lemma sanitize_parts:
  assumes "sanitize E public s = (Inr (kept, dead), t)"
  shows "set public = set kept \<union> fst ` set dead"
proof -
  obtain fl floors where "seq_sanitize (\<lambda>a. Inr (fl a)) public = Inr (kept, dead, floors)"
    using assms by (auto simp: sanitize_def sbind_Inr st_run split: prod.splits)
  then have "mset (sort_key seq_key public) = mset kept + mset (map fst dead)"
    using seq_sanitize_sanitized [of fl public] by (simp add: sanitized_def)
  from arg_cong [OF this, of set_mset] show ?thesis by simp
qed

lemma end_dead_ends:
  assumes "siter (end_dead E m now) dead s = (Inr x, t)" and "d \<in> set dead"
  shows "okey (fst d) \<in> set (d_ended t)"
  using assms
proof (induction dead arbitrary: s)
  case (Cons a dead)
  then obtain u where u: "end_dead E m now a s = (Inr (), u)" "siter (end_dead E m now) dead u = (Inr x, t)"
    by (auto simp: sthen_Inr)
  have "okey (fst a) \<in> set (d_ended u)"
    using u(1) by (auto simp: end_dead_def Let_def sthen_Inr st_run note_ended_def)
  moreover have k: "keeps (steady E m u) (siter (end_dead E m now) dead)" by (intro keeps_intros)
  have "steady E m u t" using keepsD [OF k steady_refl] u(2) by simp
  then have "set (d_ended u) \<subseteq> set (d_ended t)" by (rule steadyD(3))
  ultimately show ?case using Cons.IH [OF u(2)] Cons.prems(2) by auto
qed simp

lemma keep_crossing_okeys:
  assumes "keep_crossing m now sealed public resting s = (Inr sealed', t)" and "od \<in> set sealed"
    and "inj_on o_uid (set sealed)" and "\<forall>x\<in>set public. \<not> o_sealed x"
  shows "okey od \<in> okey ` set sealed' \<or> queued m t (okey od)"
proof -
  define kept where "kept = rp_reveal (plan_round (sealed @ public) resting now None)"
  have sub: "set kept \<subseteq> set sealed"
    using assms(4) by (auto simp: kept_def plan_round_simps ready_of_def)
  have ne: "sealed \<noteq> []" using assms(2) by auto
  show ?thesis
  proof (cases "length kept < length sealed")
    case False
    then show ?thesis using assms(1,2) ne by (simp add: keep_crossing_def Let_def kept_def st_run)
  next
    case True
    then have t: "sealed' = kept" "t = set_pend m (filter (\<lambda>od. o_uid od \<notin> uids kept) sealed @ pend m s) s"
      using assms(1) ne by (auto simp: keep_crossing_def Let_def kept_def sthen_Inr st_run)
    show ?thesis
    proof (cases "o_uid od \<in> uids kept")
      case True
      then have "od \<in> set kept" using sub assms(2,3) by (auto dest: inj_onD)
      then show ?thesis unfolding t(1) by blast
    next
      case False
      then show ?thesis using assms(2) unfolding t(2) queued_def by auto
    qed
  qed
qed

text \<open>An order of the plan is in the round, or ended, or queued again, or claimed.\<close>

definition placed_in :: "env \<Rightarrow> int \<Rightarrow> dex \<Rightarrow> assembled \<Rightarrow> dex \<Rightarrow> incarnation \<Rightarrow> bool" where
  "placed_in E m s res t k \<longleftrightarrow> (case res of Inl (rec, _, _) \<Rightarrow> k \<in> set (keys rec) | Inr _ \<Rightarrow> False) \<or>
     k \<in> set (d_ended t) \<or> queued m t k \<or> claimed E m s k"

lemma build_record_keys:
  assumes "build_record E m base quote raw pruned resting set_key sealed public s = (Inr res, t)"
  shows "\<exists>rec p d. res = Inl (rec, p, d) \<and> rr_sealed rec = sealed \<and> rr_public rec = public \<and> rr_ok_since rec = None \<and> rr_claimed rec = []"
  using assms by (auto simp: build_record_def Let_def sbind_Inr sthen_Inr st_run)

lemma finish_round_places:
  assumes f: "finish_round E m base quote now raw pruned plan resting set_key sealed public s = (Inr res, t)"
    and k: "k \<in> okey ` set sealed \<or> k \<in> okey ` set public"
    and inj: "inj_on o_uid (set sealed)" and pub: "\<forall>x\<in>set public. \<not> o_sealed x"
  shows "placed_in E m s res t k"
proof -
  obtain sealed' u where c: "keep_crossing m now sealed public resting s = (Inr sealed', u)"
    and d: "(if sealed' = [] \<and> public = [] \<and> pruned = [] then idle_reply E m plan
       else build_record E m base quote raw pruned resting set_key sealed' public) u = (Inr res, t)"
    using f by (auto simp: finish_round_def sbind_Inr)
  have su: "steady E m s u" using keepsD [OF steady_keep_crossing steady_refl, of E m s now sealed public resting] c by simp
  have "keeps (steady E m u) (if sealed' = [] \<and> public = [] \<and> pruned = [] then idle_reply E m plan
       else build_record E m base quote raw pruned resting set_key sealed' public)" by (intro keeps_intros)
  from keepsD [OF this steady_refl] have ut: "steady E m u t" using d by simp
  consider "k \<in> okey ` set sealed'" | "queued m u k" | "k \<in> okey ` set public"
    using k keep_crossing_okeys [OF c _ inj pub] by blast
  then show ?thesis
  proof cases
    case 2
    then show ?thesis using steadyD(1) [OF ut, of k] claimed_back [OF su, of k] by (auto simp: placed_in_def)
  qed (use d build_record_keys [of E m base quote raw pruned resting set_key sealed' public u res t] in
       \<open>auto simp: placed_in_def keys_def split: if_splits\<close>)
qed

lemma price_public_from:
  assumes "price_public E m public s = (Inr (priced, dead), t)" and "x \<in> set priced"
  shows "\<exists>y\<in>set public. o_side x = o_side y \<and> o_sealed x = o_sealed y"
proof -
  obtain lp where p: "price_market_orders (Inr lp) public = Inr (priced, dead)"
    using assms(1) by (auto simp: price_public_def sbind_Inr sthen_Inr st_run split: prod.splits)
  show ?thesis
  proof (cases "filter o_market public = [] \<or> lp \<le> 0")
    case True
    then have "set priced \<subseteq> set public" using p by (auto simp: price_market_orders_def Let_def split: if_splits)
    then show ?thesis using assms(2) by blast
  next
    case False
    then have "priced = map (\<lambda>od. if o_market od then od\<lparr>o_price := market_price (o_side od) lp\<rparr> else od) public"
      using p by (simp add: price_market_orders_def)
    then show ?thesis using assms(2) by auto
  qed
qed

lemma price_public_unsealed:
  assumes "price_public E m public s = (Inr (priced, dead), t)" and "\<forall>x\<in>set public. \<not> o_sealed x"
  shows "\<forall>x\<in>set priced. \<not> o_sealed x"
  using price_public_from [OF assms(1)] assms(2) by metis

lemma late_claims_claimed:
  assumes "late_claims E m s = (Inr cl, t)" and "k \<in> set cl"
  shows "claimed E m s k"
proof -
  obtain now u where u: "resolve_zombies E now m u = (Inr cl, t)" "u = s\<lparr>d_tick := d_tick s + 1\<rparr>"
    using assms by (auto simp: late_claims_def sbind_Inr st_run peek_def split: if_splits)
  have "claimed E m u k" by (rule resolve_zombies_taken [OF u(1) assms(2)])
  then show ?thesis by (simp add: u(2) claimed_def)
qed

lemma placed_in_back:
  "steady E m s u \<Longrightarrow> placed_in E m u res t k \<Longrightarrow> placed_in E m s res t k"
  using claimed_back [of E m s u k] by (auto simp: placed_in_def)

lemma assemble_places:
  assumes a: "assemble_round E m base quote now raw pruned plan resting cs set_key s = (Inr res, t)"
    and k: "od \<in> set (rp_reveal plan @ rp_public plan)"
    and inj: "inj_on o_uid (set (rp_reveal plan))" and pub: "\<forall>x\<in>set (rp_public plan). \<not> o_sealed x"
  shows "placed_in E m s res t (okey od)"
proof -
  obtain s1 s2 s3 s4 s5 priced unpriced kept stale cl where
      d: "siter (defer_order E m cs) (rp_deferred plan) s = (Inr (), s1)"
    and p: "price_public E m (rp_public plan) s1 = (Inr (priced, unpriced), s2)"
    and q: "sanitize E priced s2 = (Inr (kept, stale), s3)" and c: "late_claims E m s3 = (Inr cl, s4)"
    and e: "siter (end_dead E m now) (filter (\<lambda>d. okey (fst d) \<notin> set cl) (unpriced @ stale)) s4 = (Inr (), s5)"
    and f: "finish_round E m base quote now raw pruned plan resting set_key (filter (\<lambda>od. okey od \<notin> set cl) (rp_reveal plan))
        (filter (\<lambda>od. okey od \<notin> set cl) kept) s5 = (Inr res, t)"
    using a by (auto simp: assemble_round_def Let_def sthen_Inr sbind_Inr simp del: filter_append split: prod.splits)
  have "keeps (steady E m s) (siter (defer_order E m cs) (rp_deferred plan))" by (intro keeps_intros)
  from keepsD [OF this steady_refl] have 1: "steady E m s s1" using d by simp
  have 3: "steady E m s s3"
    using keepsD [OF steady_sanitize keepsD [OF steady_price 1]] p q by (metis snd_conv)
  have 4: "steady E m s s4" using keepsD [OF steady_late_claims 3] c by simp
  have "keeps (steady E m s) (siter (end_dead E m now) (filter (\<lambda>d. okey (fst d) \<notin> set cl) (unpriced @ stale)))"
    by (intro keeps_intros)
  from keepsD [OF this 4] have 5: "steady E m s s5" using e by simp
  have ended: "set (d_ended s5) \<subseteq> set (d_ended t)"
    using keepsD [OF steady_finish steady_refl, of E m s5 base quote now raw pruned plan resting set_key] f steadyD(3)
    by (metis snd_conv)
  have fin: "placed_in E m s res t (okey od)"
    if "okey od \<in> okey ` set (filter (\<lambda>od. okey od \<notin> set cl) (rp_reveal plan)) \<or> okey od \<in> okey ` set (filter (\<lambda>od. okey od \<notin> set cl) kept)"
    by (rule placed_in_back [OF 5 finish_round_places [OF f that]])
      (use inj price_public_unsealed [OF p pub] sanitize_parts [OF q] in \<open>auto intro: inj_on_subset\<close>)
  show ?thesis
  proof (cases "okey od \<in> set cl")
    case True
    then have "claimed E m s (okey od)" by (rule claimed_back [OF 3 late_claims_claimed [OF c]])
    then show ?thesis by (simp add: placed_in_def)
  next
    case False
    show ?thesis
    proof (cases "od \<in> set (rp_reveal plan)")
      case True
      with False show ?thesis by (intro fin) auto
    next
      case nr: False
      then have "okey od \<in> okey ` set kept \<or> okey od \<in> okey ` fst ` set (unpriced @ stale)"
        using k price_public_okeys [OF p, of od] sanitize_parts [OF q] by auto
      then show ?thesis
      proof
        assume "okey od \<in> okey ` set kept"
        with False show ?thesis by (intro fin) auto
      next
        assume "okey od \<in> okey ` fst ` set (unpriced @ stale)"
        then obtain x where "x \<in> set (unpriced @ stale)" "okey od = okey (fst x)" by (elim imageE) blast
        then have "okey od \<in> set (d_ended s5)" using end_dead_ends [OF e, of x] False by auto
        then show ?thesis using ended by (auto simp: placed_in_def)
      qed
    qed
  qed
qed

section \<open>Taking, submitting, and the whole build\<close>

lemma okey_attach [simp]: "okey (attach_expiry m s od) = okey od" "o_uid (attach_expiry m s od) = o_uid od"
  by (simp_all add: okey_def attach_expiry_def)

lemma plan_batch_places:
  assumes "wf_sides q" and "distinct (map o_uid q)"
    and p: "p = plan_batch q resting (\<lambda>cs. cap_batch cs cap gas budget sealed_cap) now ready"
  shows "set q = set (rp_reveal p @ rp_public p @ rp_carry p @ rp_expired p @ rp_deferred p @ rp_overflow p)"
    and "\<forall>x\<in>set (rp_public p). \<not> o_sealed x" and "inj_on o_uid (set (rp_reveal p))"
proof -
  have d: "distinct q" "inj_on o_uid (set q)" using assms(2) by (simp_all add: distinct_map)
  from arg_cong [OF cap.plan_batch_partition [OF assms(1) d p], of set_mset]
  show *: "set q = set (rp_reveal p @ rp_public p @ rp_carry p @ rp_expired p @ rp_deferred p @ rp_overflow p)"
    by (simp add: Un_assoc)
  then show "inj_on o_uid (set (rp_reveal p))" using d(2) by (auto intro: inj_on_subset)
  obtain C where "rp_public p = rp_public (cap.pass_plan cap gas budget sealed_cap q resting now C)"
    by (rule cap.plan_batch_exact [OF assms(1) d p refl])
  then show "\<forall>x\<in>set (rp_public p). \<not> o_sealed x" by (simp add: cap.pass_plan_def plan_round_simps)
qed

text \<open>The plan of the critical section and what it leaves queued.\<close>

lemma take_orders_run:
  assumes "take_orders E m now raw pruned ready n s = (Inr (pend_all, resting, plan), t)"
  obtains fit_ok where "pend_all = map (attach_expiry m s) (pend m s)"
    and "plan = plan_batch pend_all resting (\<lambda>cs. cap_batch cs (c_max_round_orders E) (Some (order_gas E n)) (c_round_gas_budget E)
          (if c_enc_mode E then dget (d_enc_cap s) m else None)) now (Some fit_ok)"
    and "pend m t = filter (\<lambda>od. o_uid od \<in> uids (rp_carry plan @ rp_deferred plan @ rp_overflow plan)) pend_all"
    and "d_zombies t = d_zombies s"
    and "\<forall>od. fit_ok od \<longrightarrow> (\<exists>x\<in>set pend_all. o_uid x = o_uid od \<and> ready x = Inr True)"
proof -
  let ?s1 = "if dget (d_pending s) m = None then s else set_pend m (map (attach_expiry m s) (pend m s)) s"
  have p: "pend m ?s1 = map (attach_expiry m s) (pend m s)" by (auto simp: dget_or_def)
  have e: "d_enc_cap ?s1 = d_enc_cap s" "d_zombies ?s1 = d_zombies s" "d_ended ?s1 = d_ended s" by simp_all
  have f: "fit E m n ?s1 = (\<lambda>cs. cap_batch cs (c_max_round_orders E) (Some (order_gas E n)) (c_round_gas_budget E)
          (if c_enc_mode E then dget (d_enc_cap s) m else None))" by (rule ext) (simp only: fit_def e)
  obtain oks where oks: "map_res (\<lambda>od. bind_res (ready od) (\<lambda>b. Inr (o_uid od, b))) (filter o_sealed pend_all) = Inr oks"
    and *: "pend_all = pend m ?s1"
    "plan = plan_batch pend_all resting (fit E m n ?s1) now (Some (\<lambda>od. dget oks (o_uid od) = Some True))"
    "t = set_pend m (filter (\<lambda>od. o_uid od \<in> uids (rp_carry plan @ rp_deferred plan @ rp_overflow plan)) pend_all) ?s1"
    using assms unfolding take_orders_def Let_def by (auto simp: sthen_Inr sbind_Inr st_run)
  have "\<exists>x\<in>set pend_all. o_uid x = o_uid od \<and> ready x = Inr True" if "dget oks (o_uid od) = Some True" for od
  proof -
    have "(o_uid od, True) \<in> set oks" using that by (rule map_of_SomeD)
    then obtain i where i: "i < length oks" "oks ! i = (o_uid od, True)" by (metis in_set_conv_nth)
    let ?x = "filter o_sealed pend_all ! i"
    have len: "length oks = length (filter o_sealed pend_all)" by (rule map_res_Ok_length [OF oks])
    have "bind_res (ready ?x) (\<lambda>b. Inr (o_uid ?x, b)) = Inr (o_uid od, True)"
      using list_all2_nthD2 [OF oks [unfolded map_res_Ok_iff] i(1)] i(2) by simp
    then have "o_uid ?x = o_uid od \<and> ready ?x = Inr True" by (auto simp: res_simps)
    moreover have "?x \<in> set pend_all" using nth_mem [of i "filter o_sealed pend_all"] i(1) len by auto
    ultimately show ?thesis by blast
  qed
  then have "\<forall>od. dget oks (o_uid od) = Some True \<longrightarrow> (\<exists>x\<in>set pend_all. o_uid x = o_uid od \<and> ready x = Inr True)" by blast
  then show thesis
    by (rule that [of "\<lambda>od. dget oks (o_uid od) = Some True", rotated 4])
      (use * in \<open>simp_all only: p f, simp_all add: e\<close>)
qed

lemma take_orders_places:
  assumes t: "take_orders E m now raw pruned ready n s = (Inr (pend_all, resting, plan), t)"
    and sides: "wf_sides (pend m s)" and uids: "distinct (map o_uid (pend m s))"
  shows "okey ` set pend_all = okey ` set (pend m s)"
    and "inj_on o_uid (set (rp_reveal plan))" and "\<forall>x\<in>set (rp_public plan). \<not> o_sealed x"
    and "od \<in> set pend_all \<Longrightarrow> od \<in> set (rp_reveal plan @ rp_public plan @ rp_expired plan) \<or> queued m t (okey od)"
    and "set (rp_reveal plan @ rp_public plan @ rp_expired plan) \<subseteq> set pend_all"
    and "zombies m t = zombies m s"
proof -
  obtain r where r: "pend_all = map (attach_expiry m s) (pend m s)"
    "plan = plan_batch pend_all resting (\<lambda>cs. cap_batch cs (c_max_round_orders E) (Some (order_gas E n)) (c_round_gas_budget E)
          (if c_enc_mode E then dget (d_enc_cap s) m else None)) now (Some r)"
    "pend m t = filter (\<lambda>od. o_uid od \<in> uids (rp_carry plan @ rp_deferred plan @ rp_overflow plan)) pend_all"
    "d_zombies t = d_zombies s"
    by (rule take_orders_run [OF t])
  have w: "wf_sides pend_all" using sides by (simp add: r(1) wf_sides_def attach_expiry_def)
  have u: "distinct (map o_uid pend_all)" using uids by (simp add: r(1) comp_def)
  note pl = plan_batch_places [OF w u r(2)]
  show "okey ` set pend_all = okey ` set (pend m s)" by (simp add: r(1) image_image)
  show "inj_on o_uid (set (rp_reveal plan))" "\<forall>x\<in>set (rp_public plan). \<not> o_sealed x" by (rule pl(3), rule pl(2))
  show "set (rp_reveal plan @ rp_public plan @ rp_expired plan) \<subseteq> set pend_all" unfolding pl(1) by auto
  show "zombies m t = zombies m s" by (simp add: r(4))
  assume "od \<in> set pend_all"
  moreover from this have "od \<in> set (rp_reveal plan @ rp_public plan @ rp_expired plan) \<or>
      o_uid od \<in> uids (rp_carry plan @ rp_deferred plan @ rp_overflow plan)" unfolding pl(1) by auto
  ultimately show "od \<in> set (rp_reveal plan @ rp_public plan @ rp_expired plan) \<or> queued m t (okey od)"
    by (auto simp: queued_def r(3))
qed

text \<open>What is in flight is not touched by a submission or the telemetry.\<close>

definition flies :: "(int, round_rec) dict \<Rightarrow> dex \<Rightarrow> bool" where
  "flies F t \<longleftrightarrow> d_inflight t = F"

lemma flies_prims [keeps_intros]:
  "keeps (flies F) (ask E f)" "keeps (flies F) (peek g)" "keeps (flies F) (tel E h)" "keeps (flies F) (mtr v)"
  by (simp_all add: keeps_def flies_def ask_def peek_def tel_def mtr_def st_run arrive_arrivals arrivals_frame)

lemma flies_supd [keeps_intros]: "(\<And>t. d_inflight (u t) = d_inflight t) \<Longrightarrow> keeps (flies F) (supd u)"
  by (simp add: keeps_def flies_def st_run)

lemma flies_submit [keeps_intros]: "keeps (flies F) (submit E p c d)"
  unfolding submit_def Let_def by (intro keeps_intros; simp split: exn.split add: keeps_intros)

lemma steady_set_inflight: "steady E m s (set_inflight m fr s)" "steady E m s (pop_inflight m s)"
  by (simp_all add: steady_same set_inflight_def pop_inflight_def)

lemma steady_refuse [keeps_intros]: "keeps (steady E m s) (refuse_round E m rec)"
  unfolding refuse_round_def append_assoc [symmetric]
  by (intro keeps_intros; rule steady_prepend steady_set_inflight)

lemma steady_submit_round [keeps_intros]: "keeps (steady E m s) (submit_round E m plan rpd)"
  unfolding submit_round_def drop_same_round_def
  by (cases rpd) (simp, intro keeps_intros; (rule steady_set_inflight steady_drop)?; auto)

lemma submit_round_places:
  assumes "submit_round E m plan (rec, payload, detail) s = (r, t)" and "k \<in> set (keys rec)"
  shows "queued m t k \<or> (\<exists>fr. dget (d_inflight t) m = Some fr \<and> k \<in> set (keys fr))"
proof -
  let ?F = "dset m rec (d_inflight s)"
  let ?go = "stry (sthen (submit E payload (Some (Round_landed (rr_rid rec))) detail) (sret True))
              (\<lambda>e. if is_busy e then sthen (refuse_round E m rec) (sret False) else sret True)"
  obtain v u where u: "submit E payload (Some (Round_landed (rr_rid rec))) detail (set_inflight m rec s) = (v, u)"
    by (cases "submit E payload (Some (Round_landed (rr_rid rec))) detail (set_inflight m rec s)")
  have fu: "flies ?F u"
    using keepsD [OF flies_submit, of ?F "set_inflight m rec s" E payload "Some (Round_landed (rr_rid rec))" detail] u
    by (simp add: flies_def set_inflight_def)
  show ?thesis
  proof (cases "\<exists>e. v = Inl e \<and> is_busy e")
    case True
    then obtain e where e: "v = Inl e" "is_busy e" by blast
    then have "t = snd (refuse_round E m rec u)"
      using assms(1) u by (auto simp: submit_round_def st_simps refuse_round_def cool_down_def peek_def)
    then show ?thesis using assms(2)
      by (auto simp: refuse_round_def cool_down_def peek_def st_simps queued_def keys_def pop_inflight_def)
  next
    case False
    let ?rest = "sthen (supd (drop_same_round m (rr_rid rec)))
       (sthen (siter (\<lambda>od. tel E (\<lambda>clk. rounded clk (tkey m od))) (rr_sealed rec @ rr_public rec))
         (sret (Queued (length (rr_sealed rec)) (length (rr_public rec)) (length (rp_carry plan)) (length (rp_expired plan)))))"
    from False have "t = snd (?rest u)"
      using assms(1) u by (cases v) (auto simp: submit_round_def st_run_bind st_run_then st_run_try st_run split: prod.splits)
    moreover have k: "keeps (flies ?F) ?rest"
      by (intro keeps_intros) (simp add: drop_same_round_def set_zombies_def)
    ultimately have "flies ?F t" using keepsD [OF k fu] by simp
    then show ?thesis using assms(2) by (auto simp: flies_def)
  qed
qed

lemma end_expired_ends:
  assumes "siter (end_expired E m) ods s = (Inr x, t)" and "od \<in> set ods"
  shows "okey od \<in> set (d_ended t)"
  using assms
proof (induction ods arbitrary: s)
  case (Cons a ods)
  then obtain u where u: "end_expired E m a s = (Inr (), u)" "siter (end_expired E m) ods u = (Inr x, t)"
    by (auto simp: sthen_Inr)
  have "okey a \<in> set (d_ended u)" using u(1) by (auto simp: end_expired_def sthen_Inr st_run note_ended_def)
  moreover have k: "keeps (steady E m u) (siter (end_expired E m) ods)" by (intro keeps_intros)
  have "steady E m u t" using keepsD [OF k steady_refl] u(2) by simp
  then have "set (d_ended u) \<subseteq> set (d_ended t)" by (rule steadyD(3))
  ultimately show ?case using Cons.IH [OF u(2)] Cons.prems(2) by auto
qed simp

lemma requeue_places:
  assumes "od \<in> set taken" and st: "steady E m s u"
  shows "queued m (requeue_unsent m taken u) (okey od) \<or> okey od \<in> set (d_ended u) \<or> claimed E m s (okey od)"
proof -
  let ?f = "reprice (d_repriced u)"
  let ?sk = "set (d_ended u) \<union> set (concat (map keys (filter (\<lambda>z. rr_ok_since z \<noteq> None) (zombies m u)))) \<union> set (map okey (pend m u))"
  have ok: "okey (?f x) = okey x" for x by (simp add: reprice_def okey_def split: option.split)
  have p: "pend m (requeue_unsent m taken u) = filter (\<lambda>x. okey x \<notin> ?sk) (map ?f taken) @ pend m u"
    by (simp add: requeue_unsent_def Let_def)
  show ?thesis
  proof (cases "okey od \<in> ?sk")
    case False
    then have "?f od \<in> set (filter (\<lambda>x. okey x \<notin> ?sk) (map ?f taken))" using assms(1) ok by simp
    then have "okey (?f od) \<in> okey ` set (pend m (requeue_unsent m taken u))" unfolding p set_append by blast
    then show ?thesis by (simp add: queued_def ok)
  next
    case True
    then consider "okey od \<in> set (d_ended u)" | "queued m u (okey od)"
      | z where "z \<in> set (zombies m u)" "rr_ok_since z \<noteq> None" "okey od \<in> set (keys z)" by (auto simp: queued_def)
    then show ?thesis
    proof cases
      case 2
      then show ?thesis unfolding queued_def p by auto
    next
      case (3 z)
      then have "claimed E m u (okey od)" unfolding claimed_def sighted_def by blast
      then show ?thesis using claimed_back [OF st] by blast
    qed blast
  qed
qed

text \<open>Where an order of the queue is once the build is over.\<close>

definition accounted :: "env \<Rightarrow> int \<Rightarrow> dex \<Rightarrow> dex \<Rightarrow> incarnation \<Rightarrow> bool" where
  "accounted E m s t k \<longleftrightarrow> queued m t k \<or> (\<exists>fr. dget (d_inflight t) m = Some fr \<and> k \<in> set (keys fr)) \<or>
     k \<in> set (d_ended t) \<or> claimed E m s k"

lemma placed_accounted:
  assumes "placed_in E m s res u k" and su: "steady E m s u"
  shows "case res of Inr _ \<Rightarrow> accounted E m s u k | Inl rpd \<Rightarrow> accounted E m s (snd (submit_round E m plan rpd u)) k"
proof (cases res)
  case (Inr reply)
  then show ?thesis using assms(1) by (auto simp: placed_in_def accounted_def)
next
  case (Inl rpd)
  obtain rec p d where rpd: "rpd = (rec, p, d)" by (cases rpd)
  let ?t = "snd (submit_round E m plan rpd u)"
  have ut: "steady E m u ?t" by (rule keepsD [OF steady_submit_round steady_refl])
  obtain r where sr: "submit_round E m plan (rec, p, d) u = (r, ?t)" unfolding rpd by (cases "submit_round E m plan (rec, p, d) u") simp
  have "accounted E m s ?t k"
    using assms(1) submit_round_places [OF sr, of k] steadyD(1) [OF ut, of k] steadyD(3) [OF ut] claimed_back [OF su, of k]
    unfolding placed_in_def accounted_def Inl rpd by auto
  then show ?thesis by (simp add: Inl)
qed

text \<open>The run of a build after the critical section: it raised and put orders back, or it placed them.\<close>

abbreviation fresh_build :: "dex \<Rightarrow> dex" where "fresh_build s \<equiv> s\<lparr>d_ended := [], d_repriced := []\<rparr>"

lemma accounted_fresh [simp]: "accounted E m (fresh_build s) t k = accounted E m s t k"
  by (simp add: accounted_def claimed_def)

lemma round_of_plan_run:
  assumes "round_of_plan E m base quote now raw pruned cs set_key (pend_all, resting, plan) s = (r, t)"
  obtains (raised) u where "steady E m (fresh_build s) u"
      and "t = requeue_unsent m (filter (\<lambda>od. okey od \<in> set (map okey (rp_reveal plan @ rp_public plan @ rp_expired plan))) pend_all) u"
    | (built) s1 u res where "siter (end_expired E m) (rp_expired plan) (fresh_build s) = (Inr (), s1)"
      and "assemble_round E m base quote now raw pruned plan resting cs set_key s1 = (Inr res, u)"
      and "t = (case res of Inr _ \<Rightarrow> u | Inl rpd \<Rightarrow> snd (submit_round E m plan rpd u))"
      and "steady E m (fresh_build s) s1" and "steady E m (fresh_build s) u"
proof -
  let ?go = "sthen (siter (end_expired E m) (rp_expired plan)) (assemble_round E m base quote now raw pruned plan resting cs set_key)"
  obtain v u where u: "?go (fresh_build s) = (v, u)" by (cases "?go (fresh_build s)")
  have k: "keeps (steady E m (fresh_build s)) ?go" by (intro keeps_intros)
  have su: "steady E m (fresh_build s) u" using keepsD [OF k steady_refl] u by simp
  show thesis
  proof (cases v)
    case (Inl e)
    show thesis
      by (rule raised [OF su]) (use assms u Inl in \<open>auto simp: round_of_plan_def Let_def st_simps split: prod.splits\<close>)
  next
    case (Inr res)
    obtain s1 where e: "siter (end_expired E m) (rp_expired plan) (fresh_build s) = (Inr (), s1)"
      and a: "assemble_round E m base quote now raw pruned plan resting cs set_key s1 = (Inr res, u)"
      using u Inr by (auto simp: sthen_Inr)
    have k1: "keeps (steady E m (fresh_build s)) (siter (end_expired E m) (rp_expired plan))" by (intro keeps_intros)
    have s1: "steady E m (fresh_build s) s1" using keepsD [OF k1 steady_refl] e by simp
    have "t = (case res of Inr _ \<Rightarrow> u | Inl rpd \<Rightarrow> snd (submit_round E m plan rpd u))"
      using assms u Inr by (auto simp: round_of_plan_def Let_def st_simps split: prod.splits sum.splits)
    then show thesis by (rule built [OF e a _ s1 su])
  qed
qed

lemma round_of_plan_places:
  assumes r: "round_of_plan E m base quote now raw pruned cs set_key (pend_all, resting, plan) s = (r, t)"
    and od: "od \<in> set pend_all" "od \<in> set (rp_reveal plan @ rp_public plan @ rp_expired plan)"
    and inj: "inj_on o_uid (set (rp_reveal plan))" and pub: "\<forall>x\<in>set (rp_public plan). \<not> o_sealed x"
  shows "accounted E m s t (okey od)"
  using r
proof (cases rule: round_of_plan_run)
  case (raised u)
  have "d_ended t = d_ended u" by (simp add: raised(2) requeue_unsent_def Let_def)
  then have "accounted E m (fresh_build s) t (okey od)"
    unfolding accounted_def raised(2) using requeue_places [OF _ raised(1), of od] od by auto
  then show ?thesis by simp
next
  case (built s1 u res)
  have "placed_in E m (fresh_build s) res u (okey od)"
  proof (cases "od \<in> set (rp_expired plan)")
    case True
    have "set (d_ended s1) \<subseteq> set (d_ended u)"
      using keepsD [OF steady_assemble steady_refl, of E m s1 base quote now raw pruned plan resting cs set_key] built(2) steadyD(3) by auto
    then show ?thesis using end_expired_ends [OF built(1) True] by (auto simp: placed_in_def)
  next
    case False
    then show ?thesis using placed_in_back [OF built(4) assemble_places [OF built(2) _ inj pub]] od(2) by auto
  qed
  from placed_accounted [OF this built(5), of plan] have "accounted E m (fresh_build s) t (okey od)"
    by (cases res) (simp_all add: built(3))
  then show ?thesis by simp
qed

text \<open>An order that stays queued in the critical section is still accounted for at the end.\<close>

lemma round_of_plan_waits:
  assumes r: "round_of_plan E m base quote now raw pruned cs set_key (pend_all, resting, plan) s = (r, t)"
    and k: "queued m s k"
  shows "accounted E m s t k"
  using r
proof (cases rule: round_of_plan_run)
  case (raised u)
  have "steady E m u t" by (simp add: raised(2) requeue_unsent_def Let_def steady_prepend)
  from steady_trans [OF raised(1) this] have "accounted E m (fresh_build s) t k"
    using steadyD(1) [of E m "fresh_build s" t k] k by (auto simp: accounted_def queued_def)
  then show ?thesis by simp
next
  case (built s1 u res)
  have "placed_in E m (fresh_build s) res u k"
    using steadyD(1) [OF built(5), of k] k by (auto simp: placed_in_def queued_def)
  from placed_accounted [OF this built(5), of plan] have "accounted E m (fresh_build s) t k"
    by (cases res) (simp_all add: built(3))
  then show ?thesis by simp
qed

lemma take_orders_raised:
  "take_orders E m now raw pruned ready n s = (Inl e, t) \<Longrightarrow> okey ` set (pend m t) = okey ` set (pend m s)"
  by (auto simp: take_orders_def Let_def st_simps image_image dget_or_def split: sum.splits if_splits)

section \<open>What a round reveals\<close>

lemma keep_crossing_crosses:
  assumes c: "keep_crossing m now sealed public resting s = (Inr sealed', t)" and od: "od \<in> set sealed'"
    and sides: "wf_sides (sealed @ public)" and sl: "\<forall>x\<in>set sealed. o_sealed x" and pub: "\<forall>x\<in>set public. \<not> o_sealed x"
  shows "od \<in> set sealed \<and> (\<exists>x\<in>set (resting @ public @ sealed'). matches od x)"
proof -
  define kept where "kept = rp_reveal (plan_round (sealed @ public) resting now None)"
  have f: "filter o_sealed (sealed @ public) = sealed" "public_of (sealed @ public) = public"
    using sl pub by (simp_all add: filter_empty_conv)
  have k: "kept = filter (crosses_in (liquidity (sealed @ public) resting None)) sealed"
    unfolding kept_def plan_round_simps ready_of_def f(1) by (simp add: ready_pred_def)
  have "sealed' = kept"
  proof (cases "sealed = [] \<or> length kept < length sealed")
    case True
    then show ?thesis using c k unfolding keep_crossing_def Let_def kept_def [symmetric]
      by (cases "sealed = []") (auto simp: sthen_Inr st_run)
  next
    case False
    then have "sealed' = sealed" using c unfolding keep_crossing_def Let_def kept_def [symmetric] by (simp add: st_run)
    moreover have "kept = sealed" using False unfolding k by (metis filter_id_conv length_filter_less linorder_not_less)
    ultimately show ?thesis by simp
  qed
  then show ?thesis
    using reveal_counterparty [OF sides, of od resting now None] od unfolding kept_def [symmetric] f(2) by (auto simp: k)
qed

lemma assemble_reveals:
  assumes a: "assemble_round E m base quote now raw pruned plan resting cs set_key s = (Inr (Inl (rec, payload, detail)), t)"
    and od: "od \<in> set (rr_sealed rec)"
    and sides: "wf_sides (rp_reveal plan @ rp_public plan)"
    and sl: "\<forall>x\<in>set (rp_reveal plan). o_sealed x" and pub: "\<forall>x\<in>set (rp_public plan). \<not> o_sealed x"
  shows "od \<in> set (rp_reveal plan) \<and> (\<exists>x\<in>set (resting @ rr_public rec @ rr_sealed rec). matches od x)"
proof -
  obtain s1 s2 s3 s5 priced unpriced kept stale cl where
      p: "price_public E m (rp_public plan) s1 = (Inr (priced, unpriced), s2)"
    and q: "sanitize E priced s2 = (Inr (kept, stale), s3)"
    and f: "finish_round E m base quote now raw pruned plan resting set_key (filter (\<lambda>od. okey od \<notin> set cl) (rp_reveal plan))
        (filter (\<lambda>od. okey od \<notin> set cl) kept) s5 = (Inr (Inl (rec, payload, detail)), t)"
    using a by (auto simp: assemble_round_def Let_def sthen_Inr sbind_Inr simp del: filter_append split: prod.splits)
  let ?sealed = "filter (\<lambda>od. okey od \<notin> set cl) (rp_reveal plan)" and ?public = "filter (\<lambda>od. okey od \<notin> set cl) kept"
  have from_pub: "\<exists>y\<in>set (rp_public plan). o_side x = o_side y \<and> o_sealed x = o_sealed y" if "x \<in> set ?public" for x
    using that sanitize_parts [OF q] by (intro price_public_from [OF p]) auto
  obtain sealed' u where c: "keep_crossing m now ?sealed ?public resting s5 = (Inr sealed', u)"
    and d: "(if sealed' = [] \<and> ?public = [] \<and> pruned = [] then idle_reply E m plan
       else build_record E m base quote raw pruned resting set_key sealed' ?public) u = (Inr (Inl (rec, payload, detail)), t)"
    using f by (auto simp: finish_round_def sbind_Inr)
  have rec: "rr_sealed rec = sealed'" "rr_public rec = ?public"
    using d build_record_keys [of E m base quote raw pruned resting set_key sealed' ?public u "Inl (rec, payload, detail)" t]
    by (auto simp: idle_reply_def sbind_Inr st_run split: if_splits)
  have "wf_sides (?sealed @ ?public)" using sides from_pub unfolding wf_sides_def by fastforce
  from keep_crossing_crosses [OF c _ this] od sl pub from_pub
  show ?thesis unfolding rec by fastforce
qed

section \<open>A hidden buy against an open sell\<close>

text \<open>The concrete round the reveal property is applied to. The hashes stay symbolic.\<close>

definition hidden_buy :: live_order where
  "hidden_buy = (plain_order 0 1 7 BUY 100 5)\<lparr>o_sealed := True, o_commit := Some [1]\<rparr>"

definition open_sell :: live_order where "open_sell = plain_order 1 2 8 SELL 90 5"

definition crossing_queue :: dex where
  "crossing_queue = empty_dex\<lparr>d_pending := [(1, [hidden_buy, open_sell])], d_uid := 2\<rparr>"

definition crossing_plan :: "live_order round_plan" where
  "crossing_plan = \<lparr>rp_reveal = [hidden_buy], rp_public = [open_sell], rp_carry = [], rp_expired = [],
     rp_deferred = [], rp_overflow = []\<rparr>"

lemma crossing_taken: "fst (take_orders calm_env 1 0 [] [] (\<lambda>_. Inr True) 0 crossing_queue)
    = Inr ([hidden_buy, open_sell], [], crossing_plan)"
  by code_simp

lemma crossing_orders: "o_account open_sell = 2" "o_account hidden_buy = 1"
    "\<not> o_market open_sell" "o_reveal hidden_buy = []" "o_sealed hidden_buy" "o_commit hidden_buy = Some [1]"
  by (simp_all add: open_sell_def plain_order_def hidden_buy_def)

lemma crossing_priced: "price_public calm_env 1 [open_sell] s = (Inr ([open_sell], []), s)"
  by (simp add: price_public_def price_market_orders_def crossing_orders st_simps)

lemma crossing_sanitized: "sanitize calm_env [open_sell] s = (Inr ([open_sell], []), s\<lparr>d_tick := Suc (d_tick s)\<rparr>)"
proof -
  have s: "seq_sanitize (\<lambda>a. Inr (dget_or [(2,0)] a 0)) [open_sell] = Inr ([open_sell], [], [2 \<mapsto> 0])"
    by (simp add: seq_sanitize_def plain_order_def open_sell_def dget_or_def)
  have k: "packs [(4, 2)] = Inr [2,0,0,0]" "pack 4 2 = Inr [2,0,0,0]" by code_simp+
  show ?thesis
    by (simp add: sanitize_def read_floors_def seq_floor_def storage_at_def storage_def ask_def arrive_def calm_env_def
      crossing_orders st_simps s k Let_def)
qed
lemma crossing_kept: "keep_crossing 1 0 [hidden_buy] [open_sell] [] s = (Inr [hidden_buy], s)"
proof -
  have k: "rp_reveal (plan_round [hidden_buy, open_sell] [] 0 None) = [hidden_buy]" by code_simp
  show ?thesis by (simp add: keep_crossing_def k Let_def st_simps)
qed

lemma crossing_built: "\<exists>rec p d t. build_record calm_env 1 2 0 [] [] [] set_key [hidden_buy] [open_sell] s 
     = (Inr (Inl (rec, p, d)), t) \<and> rr_sealed rec = [hidden_buy] \<and> rr_public rec = [open_sell]"
proof -
  have pb: "is_ok (public_section_bytes [open_sell] [] [])" by code_simp
  then obtain sec where sec: "public_section_bytes [open_sell] [] [] = Inr sec"
    by (cases "public_section_bytes [open_sell] [] []") simp_all
  have pk: "packs [(4, 1), (4, 2), (4, 0)] = Inr [1,0,0,0,2,0,0,0,0,0,0,0]" "pack 4 0 = Inr [0,0,0,0]" "pack 4 1 = Inr [1,0,0,0]" "pack 4 32 = Inr [32,0,0,0]"
    by code_simp+
  show ?thesis
    by (simp add: build_record_def sec pk round_payload_def st_simps peek_def calm_env_def crossing_orders consumed_entry_def
      fresh_uid_def mtr_def commitment_def Let_def)
qed

lemma crossing_assembled: "\<exists>rec p d t. assemble_round calm_env 1 2 0 0 [] [] crossing_plan [] [] (ascii ''commits'') empty_dex 
     = (Inr (Inl (rec, p, d)), t) \<and> rr_sealed rec = [hidden_buy] \<and> rr_public rec = [open_sell]"
  using crossing_built [of "ascii ''commits''" "empty_dex\<lparr>d_tick := Suc (d_tick empty_dex)\<rparr>"]
  by (simp add: assemble_round_def crossing_plan_def crossing_priced crossing_sanitized crossing_kept late_claims_def
    finish_round_def st_simps Let_def dget_or_def empty_dex_def)

text \<open>C9: a round reveals a sealed order only when its commit was found ready (on chain, and final where
  the chain finalizes) and something it can trade with rides in the very round submitted: the book,
  the public orders kept after pricing and the sequence discipline, or the other reveals. An order whose
  counterparty was re-priced, rejected or claimed away after the plan is not revealed.\<close>

theorem round_reveals_only_ready_crossing:
  assumes "wf_sides (pend m s)" and "distinct (map o_uid (pend m s))"
    and tk: "take_orders E m now raw pruned ready n s = (Inr (pend_all, resting, plan), u)"
    and "assemble_round E m base quote now raw pruned plan resting cs set_key v = (Inr (Inl (rec, payload, detail)), t)"
    and od: "od \<in> set (rr_sealed rec)"
  shows "od \<in> set pend_all \<and> o_sealed od \<and> ready od = Inr True \<and>
    (\<exists>x\<in>set (resting @ rr_public rec @ rr_sealed rec). matches od x)"
proof -
  obtain r where r: "pend_all = map (attach_expiry m s) (pend m s)"
    "plan = plan_batch pend_all resting (\<lambda>cs. cap_batch cs (c_max_round_orders E) (Some (order_gas E n)) (c_round_gas_budget E)
          (if c_enc_mode E then dget (d_enc_cap s) m else None)) now (Some r)"
    "pend m u = filter (\<lambda>od. o_uid od \<in> uids (rp_carry plan @ rp_deferred plan @ rp_overflow plan)) pend_all"
    "d_zombies u = d_zombies s" "\<forall>od. r od \<longrightarrow> (\<exists>x\<in>set pend_all. o_uid x = o_uid od \<and> ready x = Inr True)"
    by (rule take_orders_run [OF tk])
  have w: "wf_sides pend_all" using assms(1) by (simp add: r(1) wf_sides_def attach_expiry_def)
  have d: "distinct (map o_uid pend_all)" using assms(2) by (simp add: r(1) comp_def)
  then have di: "distinct pend_all" "inj_on o_uid (set pend_all)" by (simp_all add: distinct_map)
  note tp = take_orders_places [OF tk assms(1,2)]
  have rev: "x \<in> set pend_all \<and> o_sealed x \<and> r x" if "x \<in> set (rp_reveal plan)" for x
    using cap.plan_batch_reveals_trade [OF w di r(2) that] by (simp add: ready_pred_def)
  have "wf_sides (rp_reveal plan @ rp_public plan)" using w tp(5) by (auto simp: wf_sides_def)
  from assemble_reveals [OF assms(4) od this _ tp(3)] rev
  have *: "od \<in> set (rp_reveal plan)" "\<exists>x\<in>set (resting @ rr_public rec @ rr_sealed rec). matches od x" by blast+
  obtain x where x: "x \<in> set pend_all" "o_uid x = o_uid od" "ready x = Inr True" using r(5) rev [OF *(1)] by blast
  then have "x = od" using di(2) rev [OF *(1)] by (auto dest: inj_onD)
  then show ?thesis using x rev [OF *(1)] *(2) by blast
qed

theorem round_reveals_only_ready_crossing_witness:
  "\<exists>rec payload detail t. assemble_round calm_env 1 2 0 0 [] [] crossing_plan [] [] (ascii ''commits'') empty_dex
       = (Inr (Inl (rec, payload, detail)), t) \<and> rr_sealed rec = [hidden_buy] \<and>
     (\<exists>x\<in>set (rr_public rec @ rr_sealed rec). matches hidden_buy x)"
proof -
  obtain rec p d t where a: "assemble_round calm_env 1 2 0 0 [] [] crossing_plan [] [] (ascii ''commits'') empty_dex
      = (Inr (Inl (rec, p, d)), t)" and r: "rr_sealed rec = [hidden_buy]"
    using crossing_assembled by blast
  have p: "wf_sides (pend 1 crossing_queue)" "distinct (map o_uid (pend 1 crossing_queue))" by code_simp+
  have "\<exists>x\<in>set ([] @ rr_public rec @ rr_sealed rec). matches hidden_buy x"
    using round_reveals_only_ready_crossing [OF p _ a, of "\<lambda>_. Inr True" 0 "[hidden_buy, open_sell]"
      "snd (take_orders calm_env 1 0 [] [] (\<lambda>_. Inr True) 0 crossing_queue)" hidden_buy] r
    by (simp add: prod_eq_iff crossing_taken)
  then show ?thesis using a r by auto
qed


definition one_queued :: dex where
  "one_queued = empty_dex\<lparr>d_pending := [(1, [plain_order 0 1 7 BUY 100 5])], d_uid := 1\<rparr>"


end
