(* ===== verification/Server_Settle.thy ===== *)
theory Server_Settle
  imports Server_Zero_Loss
begin

text \<open>
  What settling a round does to its orders. A round leaves its market's flight in three ways only (settled
  after a durable landing, released as dead, released on timeout), no order is lost in any of them, and no
  receipt is written before the landing is durable. The unfilled rest of every hidden order is carried:
  re-sealed into the queue, or kept for a later re-seal.
\<close>

section \<open>Carrying the rest of hidden orders\<close>

text \<open>The terms a trader would recognise an order by.\<close>

definition order_terms :: "live_order \<Rightarrow> int \<times> int \<times> int \<times> int \<times> int" where
  "order_terms od = (o_account od, o_oid od, o_side od, o_price od, o_qty od)"

definition rest_terms :: "fills \<Rightarrow> live_order \<Rightarrow> int \<times> int \<times> int \<times> int \<times> int" where
  "rest_terms fills od = (o_account od, o_oid od, o_side od, o_price od, o_qty od - fill_of fills (o_oid od))"

text \<open>An order of a settled round with something left and time to rest.\<close>

definition carries_on :: "int \<Rightarrow> fills \<Rightarrow> time \<Rightarrow> dex \<Rightarrow> live_order \<Rightarrow> bool" where
  "carries_on m fills now s od \<longleftrightarrow> fill_of fills (o_oid od) < o_qty od \<and> \<not> past (expiry_of m od s) now"

abbreviation retries :: "int \<Rightarrow> dex \<Rightarrow> live_order list" where "retries m s \<equiv> dget_or (d_carry_retry s) m []"

lemma remainder_terms: "order_terms (remainder uid od (o_qty od - fill_of fills (o_oid od))) = rest_terms fills od"
  "o_sealed (remainder uid od q)"
  by (simp_all add: order_terms_def rest_terms_def remainder_def)

lemma seal_material_terms:
  "seal_material E m od s = (Inr od', t) \<Longrightarrow> order_terms od' = order_terms od \<and> o_sealed od' = o_sealed od"
  by (auto simp: seal_material_def st_simps order_terms_def split: prod.splits sum.splits if_splits)

lemma post_carry_seal_run:
  "\<exists>err od' t. post_carry_seal E m od s = (Inr (err, od'), t) \<and> order_terms od' = order_terms od \<and>
     o_sealed od' = o_sealed od \<and> quiet s t"
proof -
  obtain r t where run: "post_carry_seal E m od s = (r, t)" by (cases "post_carry_seal E m od s")
  have q: "quiet s t" using quiet.frameD [OF quiet.seal_frame(3) [of s E m od]] run by simp
  have "\<exists>err od'. r = Inr (err, od') \<and> order_terms od' = order_terms od \<and> o_sealed od' = o_sealed od"
    using run
    by (auto simp: post_carry_seal_def st_simps dest: seal_material_terms split: prod.splits sum.splits if_splits)
  with run q show ?thesis by auto
qed

text \<open>What one carry changes: the queue grows, and the market's retry list by \<open>q\<close>.\<close>

definition carry_frame :: "int \<Rightarrow> live_order list \<Rightarrow> dex \<Rightarrow> dex \<Rightarrow> bool" where
  "carry_frame m q s t \<longleftrightarrow> (\<forall>m'. prefix (pend m' s) (pend m' t)) \<and> d_expiry t = d_expiry s \<and> d_inflight t = d_inflight s \<and>
     d_zombies t = d_zombies s \<and> d_execs t = d_execs s \<and> retries m t = retries m s @ q"

lemma carry_frame_quiet: "quiet s t \<Longrightarrow> carry_frame m [] s t"
  by (simp add: quiet_def carry_frame_def)

lemma carry_frame_trans: "carry_frame m p s t \<Longrightarrow> carry_frame m q t u \<Longrightarrow> carry_frame m (p @ q) s u"
  unfolding carry_frame_def by (auto intro: prefix_order.trans)

lemma carry_frame_retry: "carry_frame m [r] s (queue_retry m r s)"
  by (simp add: carry_frame_def queue_retry_def)

lemma carries_on_frame: "carry_frame m q s t \<Longrightarrow> carries_on m fills now t = carries_on m fills now s"
  by (rule ext) (simp add: carries_on_def carry_frame_def expiry_of_def)

text \<open>The outcome stamped on an order of a settled round.\<close>

definition carry_outcome :: "int \<Rightarrow> fills \<Rightarrow> time \<Rightarrow> dex \<Rightarrow> live_order \<Rightarrow> string" where
  "carry_outcome m fills now s od = (let filled = fill_of fills (o_oid od) in
     if o_qty od \<le> filled then ''filled''
     else if past (expiry_of m od s) now then (if 0 < filled then ''partial-cancelled'' else ''cancelled'')
     else (if 0 < filled then ''partial-carried'' else ''carried''))"

lemma carry_outcome_frame: "carry_frame m q s t \<Longrightarrow> carry_outcome m fills now t = carry_outcome m fills now s"
  by (rule ext) (simp add: carry_outcome_def carry_frame_def expiry_of_def Let_def)

definition stamped_as :: "(live_order \<Rightarrow> string) \<Rightarrow> live_order \<Rightarrow> live_order \<Rightarrow> bool" where
  "stamped_as outcome od x \<longleftrightarrow> okey x = okey od \<and> order_terms x = order_terms od \<and> lo_outcome x = Some (outcome od)"

lemma carry_order_run:
  "\<exists>x c q t. carry_order E m fills now od (st, ca) s = (Inr (st @ [x], ca @ c), t) \<and> carry_frame m q s t \<and>
     stamped_as (carry_outcome m fills now s) od x \<and> (\<forall>r\<in>set (c @ q). o_sealed r) \<and>
     map order_terms (c @ q) = (if carries_on m fills now s od then [rest_terms fills od] else [])"
proof (cases "carries_on m fills now s od")
  case False
  then show ?thesis
    by (auto simp: carry_order_def Let_def st_simps carries_on_def stamped_as_def carry_outcome_def okey_def order_terms_def
      intro!: exI [where x = s] carry_frame_quiet quiet_same)
next
  case True
  let ?rem = "o_qty od - fill_of fills (o_oid od)"
  let ?s1 = "s\<lparr>d_uid := d_uid s + 1\<rparr>"
  obtain err r t where p: "post_carry_seal E m (remainder (d_uid s) od ?rem) ?s1 = (Inr (err, r), t)"
    "order_terms r = rest_terms fills od" "o_sealed r" "quiet ?s1 t"
    using post_carry_seal_run [of E m "remainder (d_uid s) od ?rem" ?s1] by (auto simp: remainder_terms)
  have f: "carry_frame m [] s t"
    using quiet_trans [OF quiet.uid p(4) [simplified]] by (rule carry_frame_quiet)
  have tr: "carry_frame m [r] s (queue_retry m r t)" using carry_frame_trans [OF f carry_frame_retry] by simp
  show ?thesis
    using True p f tr
    by (cases err) (auto simp: carry_order_def Let_def st_simps carries_on_def fresh_uid_def stamped_as_def carry_outcome_def
      okey_def order_terms_def)
qed

lemma carry_orders_run:
  "\<exists>xs c q t. sfold (carry_order E m fills now) os (st, ca) s = (Inr (st @ xs, ca @ c), t) \<and> carry_frame m q s t \<and>
     list_all2 (stamped_as (carry_outcome m fills now s)) os xs \<and> (\<forall>r\<in>set (c @ q). o_sealed r) \<and>
     mset (map order_terms (c @ q)) = mset (map (rest_terms fills) (filter (carries_on m fills now s) os))"
proof (induction os arbitrary: st ca s)
  case Nil
  then show ?case by (auto simp: st_simps intro!: exI [where x = s] carry_frame_quiet quiet_same)
next
  case (Cons od os)
  obtain x c q t where one: "carry_order E m fills now od (st, ca) s = (Inr (st @ [x], ca @ c), t)" "carry_frame m q s t"
    "stamped_as (carry_outcome m fills now s) od x" "\<forall>r\<in>set (c @ q). o_sealed r"
    "map order_terms (c @ q) = (if carries_on m fills now s od then [rest_terms fills od] else [])"
    using carry_order_run [of E m fills now od st ca s] by blast
  obtain xs c' q' u where rest: "sfold (carry_order E m fills now) os (st @ [x], ca @ c) t = (Inr ((st @ [x]) @ xs, (ca @ c) @ c'), u)"
    "carry_frame m q' t u" "list_all2 (stamped_as (carry_outcome m fills now s)) os xs" "\<forall>r\<in>set (c' @ q'). o_sealed r"
    "mset (map order_terms (c' @ q')) = mset (map (rest_terms fills) (filter (carries_on m fills now s) os))"
    using Cons.IH [of "st @ [x]" "ca @ c" t] carries_on_frame [OF one(2)] carry_outcome_frame [OF one(2)] by auto
  have "mset (map order_terms ((c @ c') @ (q @ q'))) = mset (map order_terms (c @ q)) + mset (map order_terms (c' @ q'))"
    by simp
  also have "\<dots> = mset (map (rest_terms fills) (filter (carries_on m fills now s) (od # os)))"
    unfolding one(5) rest(5) by simp
  finally have ms: "mset (map order_terms ((c @ c') @ (q @ q'))) = \<dots>" .
  have run: "sfold (carry_order E m fills now) (od # os) (st, ca) s = (Inr (st @ (x # xs), ca @ (c @ c')), u)"
    using one(1) rest(1) by (simp add: st_run_bind)
  have st: "list_all2 (stamped_as (carry_outcome m fills now s)) (od # os) (x # xs)" using one(3) rest(3) by simp
  have "\<forall>r\<in>set ((c @ c') @ (q @ q')). o_sealed r" using one(4) rest(4) by auto
  with run st ms carry_frame_trans [OF one(2) rest(2)] show ?case by blast
qed

text \<open>C5: settling a round carries exactly the unfilled rest of every hidden order that may still rest, whatever
  the chain and the committee do. The carry never raises. Each order is stamped with its outcome: filled,
  (partly) cancelled because its time is up, or (partly) carried. For the orders carried, the rests, with
  the original account, id, side and price and the quantity not filled, are divided between the end of the
  market's queue (re-sealed) and its retry list (not re-sealed yet), each exactly once, still hidden;
  nothing queued before is touched.\<close>

theorem carry_conserves:
  "\<exists>stamped carried retried t. carry_sealed_remainders E m sealed fills now s = (Inr (stamped, carried), t) \<and>
     list_all2 (stamped_as (carry_outcome m fills now s)) sealed stamped \<and>
     mset (map order_terms (carried @ retried)) = mset (map (rest_terms fills) (filter (carries_on m fills now s) sealed)) \<and>
     list_all o_sealed (carried @ retried) \<and>
     retries m t = retries m s @ retried \<and>
     (\<exists>arrived. pend m t = pend m s @ arrived @ carried) \<and> d_expiry t = d_expiry s"
proof -
  obtain xs c q t where run: "sfold (carry_order E m fills now) sealed ([], []) s = (Inr (xs, c), t)" "carry_frame m q s t"
    "list_all2 (stamped_as (carry_outcome m fills now s)) sealed xs" "\<forall>r\<in>set (c @ q). o_sealed r"
    "mset (map order_terms (c @ q)) = mset (map (rest_terms fills) (filter (carries_on m fills now s) sealed))"
    using carry_orders_run [of E m fills now sealed "[]" "[]" s] by auto
  obtain arrived where "pend m t = pend m s @ arrived" using run(2) by (auto simp: carry_frame_def prefix_def)
  moreover let ?u = "if c = [] then t else set_pend m (pend m t @ c) t"
  have "carry_sealed_remainders E m sealed fills now s = (Inr (xs, c), ?u)"
    using run(1) by (simp add: carry_sealed_remainders_def st_simps)
  ultimately show ?thesis
    by (rule_tac x = xs in exI, rule_tac x = c in exI, rule_tac x = q in exI, rule_tac x = ?u in exI)
      (use run in \<open>auto simp: carry_frame_def list_all_iff\<close>)
qed

section \<open>Leaving the flight\<close>

text \<open>The landing counts: its marker is in a finalized state, or it has been in sight long enough.\<close>

definition durable :: "env \<Rightarrow> round_rec \<Rightarrow> time \<Rightarrow> bool" where
  "durable E fr now \<longleftrightarrow> (\<exists>since. rr_ok_since fr = Some since \<and>
     ((\<exists>t v. w_read_final E t (ascii ''rl'' @ rr_rid fr) = Inr v \<and> 4 \<le> length v) \<or> MIN_CONFIRM_SECS \<le> now - since))"

lemma landed_final_read:
  "landed_final E rid s = (Inr (Some True), t) \<Longrightarrow> \<exists>t v. w_read_final E t (ascii ''rl'' @ rid) = Inr v \<and> 4 \<le> length v"
  by (auto simp: landed_final_def storage_final_def ask_def st_simps split: sum.splits exn.splits)

lemma confirmed_durable:
  assumes "confirmed E fr now s = (Inr True, t)" and "rr_ok_since fr \<noteq> None"
  shows "durable E fr now"
proof -
  obtain r u where l: "landed_final E (rr_rid fr) s = (r, u)" by (cases "landed_final E (rr_rid fr) s")
  consider "r = Inr (Some True)" | "MIN_CONFIRM_SECS \<le> now - the (rr_ok_since fr)"
    using assms l
    by (auto simp: confirmed_def st_simps split: sum.splits prod.splits if_splits option.splits bool.splits)
  then show ?thesis
    using landed_final_read l assms(2) unfolding durable_def by cases auto
qed

text \<open>Where an order of the round in flight is after a judgement: still in that round, claimed by another round,
  back in the queue because the round was released, or settled with a durable landing. Receipts are written
  in the last case only.\<close>

definition released_for :: "env \<Rightarrow> round_rec \<Rightarrow> time \<Rightarrow> bool" where
  "released_for E fr now \<longleftrightarrow> rr_ok_since fr = None \<and> (c_round_gate_secs E < now - rr_t fr \<or>
     c_dead_confirm_secs E \<le> now - (case rr_dead_since fr of Some t \<Rightarrow> t | None \<Rightarrow> now))"

definition still_flies :: "int \<Rightarrow> round_rec \<Rightarrow> dex \<Rightarrow> bool" where
  "still_flies m fr t \<longleftrightarrow> (\<exists>fr'. dget (d_inflight t) m = Some fr' \<and> keys fr' = keys fr \<and> rr_rid fr' = rr_rid fr)"

definition judged :: "env \<Rightarrow> int \<Rightarrow> round_rec \<Rightarrow> time \<Rightarrow> dex \<Rightarrow> dex \<Rightarrow> bool" where
  "judged E m fr now s t \<longleftrightarrow>
     still_flies m fr t \<and> d_execs t = d_execs s \<or>
     released_for E fr now \<and> d_execs t = d_execs s \<and>
       (\<forall>k\<in>set (keys fr). dget (rr_claimed fr) k = None \<longrightarrow> queued m t k) \<or>
     marker_read E (rr_rid fr) \<and> durable E fr now"

lemma quiet_keeps: "(\<And>s. keeps (quiet s) c) \<Longrightarrow> (\<And>s t. quiet s t \<Longrightarrow> P s \<Longrightarrow> P t) \<Longrightarrow> keeps P c"
  by (rule keepsI) (metis quiet.frameD)

lemma quiet_queued: "quiet s t \<Longrightarrow> queued m s k \<Longrightarrow> queued m t k"
  by (auto simp: quiet_def queued_def dest!: spec [of _ m] intro: set_mono_prefix [THEN subsetD] image_eqI)

lemma quiet_execs: "quiet s t \<Longrightarrow> d_execs t = d_execs s"
  by (simp add: quiet_def)

text \<open>The state after a release: the orders no other round claims are queued, the receipts are as before.\<close>

definition put_back :: "int \<Rightarrow> round_rec \<Rightarrow> (int, exec_rec list) dict \<Rightarrow> dex \<Rightarrow> bool" where
  "put_back m fr X t \<longleftrightarrow> d_execs t = X \<and> (\<forall>k\<in>set (keys fr). dget (rr_claimed fr) k = None \<longrightarrow> queued m t k)"

lemma put_back_quiet: "quiet s t \<Longrightarrow> put_back m fr X s \<Longrightarrow> put_back m fr X t"
  unfolding put_back_def by (intro conjI ballI impI) (simp add: quiet_execs, erule quiet_queued, blast)

lemma put_back_frame:
  "put_back m fr X u \<Longrightarrow> put_back m fr X (u\<lparr>d_zombies := z\<rparr>)"
  "put_back m fr X u \<Longrightarrow> put_back m fr X (u\<lparr>d_round_gate := g, d_enc_cap := e\<rparr>)"
  by (simp_all add: put_back_def queued_def)

lemma put_back_queue: "put_back m fr (d_execs s) (set_pend m (unclaimed fr (rr_sealed fr @ rr_public fr) @ pend m s) s)"
proof -
  have "k \<in> okey ` set (unclaimed fr (rr_sealed fr @ rr_public fr))" if "k \<in> set (keys fr)" "dget (rr_claimed fr) k = None" for k
    using that by (auto simp: keys_def unclaimed_def)
  then show ?thesis by (simp add: put_back_def queued_def image_Un)
qed

lemma requeue_quiet: "keeps (quiet s) (siter (requeue_tel E m) os)"
  by (rule keeps_siter) (rule quiet.revert_frame(2))

lemma put_back_released: "keeps (put_back m fr X) (watch_released E m fr' why now os)"
  unfolding watch_released_def
proof (intro keeps_then keeps_when)
  show "keeps (put_back m fr X) (siter (requeue_tel E m) os)" by (rule quiet_keeps [OF requeue_quiet put_back_quiet])
  show "keeps (put_back m fr X) (mtr f)" for f by (rule quiet_keeps [OF quiet.prims(3) put_back_quiet])
qed (rule keeps_supd, erule put_back_frame)+

lemma abandon_run: "put_back m fr (d_execs s) (snd (abandon E m fr why now s))"
proof -
  let ?os = "unclaimed fr (rr_sealed fr @ rr_public fr)"
  obtain t where t: "stage_seconds m ''abandoned'' (now - rr_t fr) s = (Inr (), t)" "d_execs t = d_execs s"
    by (simp add: stage_seconds_def mtr_def st_run)
  have "put_back m fr (d_execs s) (snd (watch_released E m fr why now ?os (set_pend m (?os @ pend m t) t)))"
    using keepsD [OF put_back_released put_back_queue [of m fr t]] t(2) by simp
  then show ?thesis by (simp add: abandon_def Let_def st_run_then st_run t(1))
qed

lemma read_fate_run:
  obtains read u where "read_fate E m fr s = (Inr read, u)" and "quiet s u"
    and "\<And>why slot. read = Some (why, Some slot) \<Longrightarrow> marker_read E (rr_rid fr)"
proof -
  obtain r u where run: "read_fate E m fr s = (r, u)" by (cases "read_fate E m fr s")
  have "keeps (quiet s) (read_fate E m fr)" unfolding read_fate_def by (intro keeps_intros)
  from quiet.frameD [OF this] run have q: "quiet s u" by simp
  have "\<exists>read. r = Inr read \<and> (\<forall>why slot. read = Some (why, Some slot) \<longrightarrow> marker_read E (rr_rid fr))"
    using run by (auto simp: read_fate_def st_simps dest: landed_slot_marker split: prod.splits sum.splits)
  with that run q show thesis by blast
qed

lemma flies_set: "keys fr' = keys fr \<Longrightarrow> rr_rid fr' = rr_rid fr \<Longrightarrow> still_flies m fr (set_inflight m fr' s)"
  by (simp add: still_flies_def set_inflight_def)

lemma still_flies_quiet: "quiet s t \<Longrightarrow> still_flies m fr s \<Longrightarrow> still_flies m fr t"
  by (simp add: quiet_def still_flies_def)

text \<open>After a quiet computation from a state with the round in flight, it is in flight.\<close>

lemma judged_quiet:
  assumes "keeps (quiet (set_inflight m fr' s)) c" and "keys fr' = keys fr" and "rr_rid fr' = rr_rid fr" and "quiet s0 s"
  shows "judged E m fr now s0 (snd (c (set_inflight m fr' s)))"
proof -
  have q: "quiet (set_inflight m fr' s) (snd (c (set_inflight m fr' s)))" by (rule quiet.frameD [OF assms(1)])
  have "d_execs (snd (c (set_inflight m fr' s))) = d_execs s0"
    using quiet_execs [OF q] quiet_execs [OF assms(4)] by (simp add: set_inflight_def)
  with still_flies_quiet [OF q flies_set [OF assms(2,3)]] show ?thesis by (simp add: judged_def)
qed

lemma judged_released:
  assumes "released_for E fr now" and "quiet s0 s" and "keys fr' = keys fr" and "rr_claimed fr' = rr_claimed fr"
    and "rr_sealed fr' = rr_sealed fr" "rr_public fr' = rr_public fr"
  shows "judged E m fr now s0 (snd (abandon E m fr' why now (pop_inflight m (set_inflight m fr' s))))"
proof -
  have "put_back m fr' (d_execs s0) (snd (abandon E m fr' why now (pop_inflight m (set_inflight m fr' s))))"
    using abandon_run [of m fr' "pop_inflight m (set_inflight m fr' s)" E why now] quiet_execs [OF assms(2)]
    by (simp add: pop_inflight_def set_inflight_def)
  then show ?thesis using assms by (simp add: judged_def put_back_def)
qed

lemma judged_confirming:
  assumes "marker_read E (rr_rid fr)" and "rr_ok_since fr \<noteq> None" and "quiet s0 s"
    and "keys fr' = keys fr" "rr_rid fr' = rr_rid fr" "rr_ok_since fr' = rr_ok_since fr"
  shows "judged E m fr now s0 (snd (sbind (confirmed E fr' now) (\<lambda>ok. if ok then c else sret ()) (set_inflight m fr' s)))"
proof (cases "fst (confirmed E fr' now (set_inflight m fr' s)) = Inr True")
  case True
  then have "durable E fr' now" using confirmed_durable [of E fr' now] assms(2,6) by (metis prod.collapse)
  then have "durable E fr now" using assms(5,6) by (simp add: durable_def)
  with assms(1) show ?thesis by (simp add: judged_def)
next
  case False
  then have "snd (sbind (confirmed E fr' now) (\<lambda>ok. if ok then c else sret ()) (set_inflight m fr' s))
      = snd (confirmed E fr' now (set_inflight m fr' s))"
    by (auto simp: st_simps split: prod.splits sum.splits)
  then show ?thesis
    using judged_quiet [where c = "confirmed E fr' now", OF quiet.confirmed_frame assms(4,5,3)] by simp
qed

lemma supd_then: "sthen (supd u) c s = c (u s)"
  by (simp add: st_run_then st_run)

lemma keys_upd [simp]: "keys (fr\<lparr>rr_dead_since := d\<rparr>) = keys fr" "keys (fr\<lparr>rr_ok_since := d\<rparr>) = keys fr"
  by (simp_all add: keys_def)

lemma judged_landed:
  assumes "marker_read E (rr_rid fr)" and "quiet s0 s"
  shows "judged E m fr now s0 (snd (act_on_fate E m fr now (Some (why, Some slot)) s))"
proof (cases "rr_ok_since fr")
  case None
  then show ?thesis
    by (simp add: act_on_fate_def Let_def supd_then judged_quiet [OF quiet.revert_frame(3) _ _ assms(2)])
next
  case (Some since)
  let ?fr = "fr\<lparr>rr_dead_since := None\<rparr>"
  let ?c = "sbind (rival_landed E m ?fr) (\<lambda>rival. if rival then sret ()
    else sthen (supd (pop_inflight m)) (stry (finalize_round E m ?fr) (\<lambda>_. sret ())))"
  have e: "(\<lambda>ok. sbind (if ok then rival_landed E m ?fr else sret True) (\<lambda>rival. if rival then sret ()
      else sthen (supd (pop_inflight m)) (stry (finalize_round E m ?fr) (\<lambda>_. sret ())))) = (\<lambda>ok. if ok then ?c else sret ())"
    by (intro ext) (simp add: st_simps)
  show ?thesis
    using judged_confirming [of E fr s0 s ?fr m now ?c] assms Some by (simp add: act_on_fate_def Let_def supd_then e)
qed

lemma judged_missing:
  assumes "quiet s0 s"
  shows "judged E m fr now s0 (snd (act_on_fate E m fr now (Some (why, None)) s))"
proof (cases "rr_ok_since fr")
  case (Some since)
  then show ?thesis
    by (simp add: act_on_fate_def supd_then judged_quiet [OF quiet.revert_frame(1) _ _ assms])
next
  case None
  have stay: "judged E m fr now s0 (set_inflight m fr' s)" if "keys fr' = keys fr" "rr_rid fr' = rr_rid fr" for fr'
    using judged_quiet [where c = "sret ()", OF keeps_pure(1) that assms] by (simp add: st_run)
  have go: "judged E m fr now s0 (snd (abandon E m fr' w now (pop_inflight m (set_inflight m fr' s))))"
    if "released_for E fr now" "fr' = fr\<lparr>rr_dead_since := d\<rparr>" for fr' d w
    by (rule judged_released [OF that(1) assms]) (simp_all add: that(2))
  show ?thesis
    using None by (cases why) (auto simp: act_on_fate_def Let_def supd_then st_run_when released_for_def intro!: stay go)
qed


end
