(* ===== verification/Server_Placement.thy ===== *)
theory Server_Placement
  imports Server_Settle
begin

text \<open>
  What \<^verbatim>\<open>api_order\<close> guarantees of the order it queues: its octets fit the wire, its signature and sequence
  number were checked, its draft is consumed, its expiry is bounded, and nothing queued before is lost.
\<close>

section \<open>Frames of the checks\<close>

context state_frame
begin

lemma checks [keeps_intros]:
  "keeps (R s) (check_solvent E)" "keeps (R s) (request_price E m b sd p)" "keeps (R s) (pubkey_of_handle E a)"
  "keeps (R s) (check_seq E q)" "keeps (R s) (check_funds E q p' n)" "keeps (R s) (check_open E q)"
  "keeps (R s) (submit_signed_commit E m d sq sg)" "keeps (R s) (marketable E m sd p'')"
  unfolding check_solvent_def jamkb_solvency_def footprint_octets_def rent_reserve_atomic_def request_price_def pubkey_of_handle_def
    check_seq_def check_funds_def check_open_def open_order_count_def submit_signed_commit_def signer_key_def marketable_def
    Let_def case_prod_beta
  by (intro keeps_intros)+

end

text \<open>A step that changes nothing but what every call touches, and leaves the drafts.\<close>

definition calm :: "dex \<Rightarrow> dex \<Rightarrow> bool" where
  "calm s t \<longleftrightarrow> quiet s t \<and> same_drafts s t"

lemma calm_run: "keeps (quiet s) c \<Longrightarrow> keeps (same_drafts s) c \<Longrightarrow> c s = (r, t) \<Longrightarrow> calm s t"
  using quiet.frameD [of s c] drafts.frameD [of s c] by (simp add: calm_def)

lemma calm_refl: "calm s s" by (simp add: calm_def quiet.refl drafts.refl)

lemma calm_trans: "calm s t \<Longrightarrow> calm t u \<Longrightarrow> calm s u"
  unfolding calm_def by (blast intro: quiet_trans drafts.trans)

section \<open>The run of a placement\<close>

lemma place_order_run:
  assumes "place_order E q price qty pub sp draft s = (Inr r, t)"
  shows "\<exists>oid u n k. (case draft of None \<Rightarrow> True | Some d \<Rightarrow> oid = o_oid d) \<and> pl_oid r = oid \<and>
    (\<forall>m. prefix (pend m s) (pend m u)) \<and>
    pend (oq_market q) t = pend (oq_market q) u @ [(new_order q oid price qty pub sp draft)\<lparr>o_uid := k\<rparr>] \<and>
    dget (d_expiry t) (oq_market q, oq_account q, oid) = Some (w_time E n + effective_ttl E (oq_sealed q) (oq_ttl q)) \<and>
    d_seal_drafts t = d_seal_drafts s"
proof -
  let ?m = "oq_market q" and ?x = "effective_ttl E (oq_sealed q) (oq_ttl q)"
  let ?commit = "case draft of None \<Rightarrow> sret () | Some d \<Rightarrow> submit_signed_commit E ?m d (oq_commit_seq q) (oq_commit_sig q)"
    and ?look = "if oq_sealed q then sret False else marketable E ?m (side_of (oq_buy q)) price"
  from assms obtain oid s1 n s3 s4 mk s5 where
    oid: "(case draft of Some d \<Rightarrow> sret (o_oid d) | None \<Rightarrow> take_oid) s = (Inr oid, s1)"
    and s3: "s3 = s1\<lparr>d_tick := d_tick s1 + 1, d_expiry := dset (?m, oq_account q, oid) (w_time E n + ?x) (d_expiry s1)\<rparr>"
    and s4: "?commit s3 = (Inr (), s4)" and s5: "?look s4 = (Inr mk, s5)"
    and fin: "sthen (supd (new_object ?m (new_order q oid price qty pub sp draft))) (
       sbind (sget (\<lambda>s. length (pend ?m s))) (\<lambda>n.
       sthen (tel E (\<lambda>clk. placed clk (?m, oq_account q, oid) (side_of (oq_buy q)) price qty (oq_sealed q) mk))
       (sret \<lparr>pl_oid = oid, pl_sealed = oq_sealed q, pl_is_market = oq_is_market q, pl_pending = n\<rparr>))) s5 = (Inr r, t)"
    unfolding place_order_def sbind_Inr sthen_Inr by (auto simp: peek_def supd_def)
  have c4: "calm s3 s4" by (rule calm_run [where c = ?commit and s = s3, OF _ _ s4]) (intro keeps_intros)+
  have c5: "calm s4 s5" by (rule calm_run [where c = ?look and s = s4, OF _ _ s5]) (intro keeps_intros)+
  from calm_trans [OF c4 c5] have c: "\<And>m. prefix (pend m s3) (pend m s5)" "d_expiry s5 = d_expiry s3" "d_seal_drafts s5 = d_seal_drafts s3"
    by (auto simp: calm_def quiet_def same_drafts_def)
  have s1: "d_pending s1 = d_pending s" "d_seal_drafts s1 = d_seal_drafts s" "case draft of None \<Rightarrow> True | Some d \<Rightarrow> oid = o_oid d"
    using oid by (auto simp: sret_def take_oid_def split: option.splits)
  show ?thesis
    using fin c s1 unfolding s3
    by (intro exI [of _ oid] exI [of _ s5] exI [of _ n] exI [of _ "d_uid s5"])
      (auto simp: st_simps tel_def new_object_def enqueue_def)
qed

lemma take_draft_run:
  assumes "take_draft q pub s = (Inr draft, t)"
  shows "if oq_sealed q
    then \<exists>d. draft = Some d \<and> dget (d_seal_drafts s) (oq_market q, oq_oid q) = Some d \<and> o_account d = oq_account q \<and>
           t = s\<lparr>d_seal_drafts := dpop (oq_market q, oq_oid q) (d_seal_drafts s)\<rparr>
    else draft = None \<and> t = s"
  using assms unfolding take_draft_def by (auto simp: st_simps split: if_splits option.splits)

lemma check_signed_run:
  "check_signed q pub s = (Inr (), t) \<Longrightarrow> t = s \<and> (\<not> oq_sealed q \<longrightarrow> pub \<noteq> None \<and> length (oq_sig q) = 64)"
  by (auto simp: check_signed_def st_simps split: if_splits)

lemma check_seq_run:
  assumes "check_seq E q s = (Inr (), t)" and "\<not> oq_sealed q"
  shows "\<exists>u. quiet s u \<and> \<not> seq_in_use (oq_account q) (oq_seq q) u"
proof -
  from assms obtain fl u where u: "seq_floor E (oq_account q) s = (Inr fl, u)" and "\<not> seq_in_use (oq_account q) (oq_seq q) u"
    unfolding check_seq_def by (auto simp: st_simps split: prod.splits sum.splits if_splits)
  moreover have "quiet s u" using quiet.frameD [OF quiet.reads(10), of s E "oq_account q"] u by simp
  ultimately show ?thesis by blast
qed

lemma seq_unused:
  assumes "quiet s u" and "\<not> seq_in_use a n u" and "od \<in> set (pend m s)"
  shows "o_sealed od \<or> o_account od \<noteq> a \<or> o_seq od \<noteq> n"
proof -
  have "od \<in> set (pend m u)" using assms(1,3) unfolding quiet_def by (meson set_mono_prefix subsetD)
  then obtain os where "(m, os) \<in> set (d_pending u)" "od \<in> set os"
    by (cases "dget (d_pending u) m") (auto simp: dget_or_def dest: map_of_SomeD)
  with assms(2) show ?thesis by (force simp: seq_in_use_def list_ex_iff)
qed

lemma order_msg_fits:
  "order_msg q qty sp = Inr msg \<Longrightarrow> fits 4 (oq_account q) \<and> fits 4 (oq_market q) \<and> fits 4 qty \<and> fits 4 sp \<and> fits 8 (oq_seq q)"
  by (auto simp: order_msg_def bind_res_eq_Ok pack_Ok)

lemma effective_ttl_bound: "effective_ttl E b x \<le> order_lifetime_secs E b"
  by (simp add: effective_ttl_def Let_def)

text \<open>The checks in order: what a request that is not refused has passed.\<close>

lemma api_order_run:
  assumes "api_order E q s = (Inr r, t)"
  shows "\<exists>s3 s4 s5 s6 pub draft price qty sp msg. calm s s3 \<and> take_draft q pub s3 = (Inr draft, s4) \<and>
    check_signed q pub s4 = (Inr (), s4) \<and> order_msg q qty sp = Inr msg \<and>
    (case draft of None \<Rightarrow> True | Some d \<Rightarrow> price = o_price d \<and> qty = o_qty d) \<and>
    \<not> (c_require_sig E \<and> pub \<noteq> None \<and> oq_sig q \<noteq> [] \<and> \<not> verify_order_sig E (the pub) msg (oq_sig q)) \<and>
    check_seq E q s4 = (Inr (), s5) \<and> calm s4 s6 \<and> place_order E q price qty pub sp draft s6 = (Inr r, t)"
proof -
  from assms obtain s1 p0 s2 pub s3 draft s4 where a: "check_solvent E s = (Inr (), s1)"
    "request_price E (oq_market q) (oq_is_market q) (side_of (oq_buy q)) (oq_price q) s1 = (Inr p0, s2)"
    "pubkey_of_handle E (oq_account q) s2 = (Inr pub, s3)" "take_draft q pub s3 = (Inr draft, s4)" and
    rest: "(let price = (case draft of None \<Rightarrow> p0 | Some d \<Rightarrow> o_price d);
           qty = (case draft of None \<Rightarrow> to_atomic (oq_qty q) | Some d \<Rightarrow> o_qty d);
           sp = (if oq_is_market q then 0 else price)
       in sthen (check_signed q pub) (
          sbind (slift (order_msg q qty sp)) (\<lambda>msg.
            if c_require_sig E \<and> pub \<noteq> None \<and> oq_sig q \<noteq> [] \<and> \<not> verify_order_sig E (the pub) msg (oq_sig q)
            then sraise (ValueError ''bad order signature'')
            else sthen (check_seq E q) (
                 sthen (check_funds E q price qty) (
                 sthen (check_open E q) (place_order E q price qty pub sp draft)))))) s4 = (Inr r, t)"
    unfolding api_order_def sthen_Inr sbind_Inr by auto
  have c: "calm s s1" "calm s1 s2" "calm s2 s3"
    using calm_run [where c = "check_solvent E" and s = s] calm_run [where c = "request_price E (oq_market q) (oq_is_market q) (side_of (oq_buy q)) (oq_price q)" and s = s1]
      calm_run [where c = "pubkey_of_handle E (oq_account q)" and s = s2] a(1-3)
    by (simp_all add: quiet.checks drafts.checks)
  define price qty sp where "price = (case draft of None \<Rightarrow> p0 | Some d \<Rightarrow> o_price d)"
    and "qty = (case draft of None \<Rightarrow> to_atomic (oq_qty q) | Some d \<Rightarrow> o_qty d)" and "sp = (if oq_is_market q then 0 else price)"
  from rest obtain s4' msg s5 s5' s6 where b: "check_signed q pub s4 = (Inr (), s4')" "order_msg q qty sp = Inr msg"
    "\<not> (c_require_sig E \<and> pub \<noteq> None \<and> oq_sig q \<noteq> [] \<and> \<not> verify_order_sig E (the pub) msg (oq_sig q))"
    "check_seq E q s4' = (Inr (), s5)" "check_funds E q price qty s5 = (Inr (), s5')" "check_open E q s5' = (Inr (), s6)"
    "place_order E q price qty pub sp draft s6 = (Inr r, t)"
    unfolding Let_def price_def [symmetric] qty_def [symmetric] sp_def [symmetric] sthen_Inr sbind_Inr
    by (auto simp: slift_def sthen_Inr sraise_def split: if_splits)
  have s4': "s4' = s4" using check_signed_run [OF b(1)] by simp
  have d: "calm s4 s5" "calm s5 s5'" "calm s5' s6"
    using calm_run [where c = "check_seq E q" and s = s4] calm_run [where c = "check_funds E q price qty" and s = s5]
      calm_run [where c = "check_open E q" and s = s5'] b(4-6) s4'
    by (simp_all add: quiet.checks drafts.checks)
  have "case draft of None \<Rightarrow> True | Some d \<Rightarrow> price = o_price d \<and> qty = o_qty d" by (simp add: price_def qty_def split: option.split)
  with a(4) b s4' calm_trans [OF calm_trans [OF c(1,2)] c(3)] calm_trans [OF calm_trans [OF d(1,2)] d(3)]
  show ?thesis by blast
qed


definition open_door :: env where
  "open_door = calm_env\<lparr>c_backpressure := False, w_read := (\<lambda>t k. Inr (if take 2 k = ascii ''pk'' then replicate 32 7 else []))\<rparr>"

definition small_buy :: order_req where
  "small_buy = \<lparr>oq_market = 1, oq_buy = True, oq_is_market = False, oq_account = 3, oq_qty = 2, oq_price = 1, oq_base = -1,
     oq_quote = -1, oq_seq = 5, oq_sig = replicate 64 0, oq_sealed = False, oq_oid = 0, oq_commit_sig = [], oq_commit_seq = 0,
     oq_ttl = 60, oq_address = []\<rparr>"


section \<open>A draft does not survive a refused request\<close>

text \<open>A sealed request that names another account's draft is refused, and the draft is gone all the same.\<close>

lemma foreign_request_burns_draft:
  assumes "oq_sealed q" and "dget (d_seal_drafts s) (oq_market q, oq_oid q) = Some d" and "o_account d \<noteq> oq_account q"
  shows "\<exists>e t. take_draft q pub s = (Inl e, t) \<and> dget (d_seal_drafts t) (oq_market q, oq_oid q) = None"
  using assms by (simp add: take_draft_def st_simps)

text \<open>The side and the type of a queued sealed order are the request's, whatever the draft committed to.\<close>

lemma sealed_side_from_request:
  "o_side (new_order q oid p n pub sp (Some d)) = side_of (oq_buy q)" "o_market (new_order q oid p n pub sp (Some d)) = oq_is_market q"
  "o_reveal (new_order q oid p n pub sp (Some d)) = o_reveal d"
  by (simp_all add: new_order_def)

end
