(* ===== verification/Server_Waits.thy ===== *)
theory Server_Waits
  imports Server_Frames
begin

text \<open>
  The waits of the start-up (\<^verbatim>\<open>ensure_markets\<close>, \<^verbatim>\<open>wait_reserved\<close>, \<^verbatim>\<open>wait_for_node\<close>) always come back. Each pass
  of a loop reads the clock at a later tick than the pass before, so a clock that passes every deadline
  ends it; what a pass does to the chain, and any error it meets, is caught inside the pass.
\<close>

lemma sfold_total:
  assumes "\<And>x a s. \<exists>b. fst (f x a s) = Inr b"
  shows "\<exists>b. fst (sfold f xs a s) = Inr b"
proof (induction xs arbitrary: a s)
  case (Cons x xs)
  obtain b t where "f x a s = (Inr b, t)" using assms [of x a s] by (metis prod.collapse)
  then show ?case using Cons.IH [of b t] by (simp add: sbind_def)
qed (simp add: sret_def)

lemma stry_total: "(\<And>e t. \<exists>b. fst (h e t) = Inr b) \<Longrightarrow> \<exists>b. fst (stry m h s) = Inr b"
  by (auto simp: stry_def split: prod.split sum.split)

lemma list_market_total: "\<exists>b. fst (list_market E clock mkt a s) = Inr b"
  unfolding list_market_def case_prod_beta by (rule stry_total) (simp add: sret_def)

lemma list_market_later: "keeps (later s) (list_market E clock mkt a)"
  unfolding list_market_def resend_listing_def api_list_def market_listed_def case_prod_beta
  by (intro keeps_intros)

text \<open>One turn of either loop: a pass that cannot raise and never sets the tick back, then the clock.\<close>

lemma turn_ends:
  assumes "\<exists>x. fst (pass s) = Inr x" and "keeps (later s) pass"
    and "\<And>x t. d_tick s < d_tick t \<Longrightarrow> \<not> deadline \<le> clock (d_tick t - 1) \<Longrightarrow> \<exists>b. fst (again x t) = Inr (Some (b :: bool))"
  shows "\<exists>b. fst (sbind pass (\<lambda>x. if ok x then sret (Some True)
      else sbind (peek clock) (\<lambda>now. if deadline \<le> now then sret (Some False) else again x)) s) = Inr (Some b)"
proof -
  obtain x t where p: "pass s = (Inr x, t)" using assms(1) by (metis prod.collapse)
  then have t: "d_tick s \<le> d_tick t" using later.frameD [OF assms(2)] by (simp add: later_def)
  let ?u = "t\<lparr>d_tick := d_tick t + 1\<rparr>"
  have "\<exists>b. fst (again x ?u) = Inr (Some b)" if "\<not> deadline \<le> clock (d_tick t)"
    using assms(3) [of ?u x] t that by simp
  then show ?thesis by (cases "ok x"; cases "deadline \<le> clock (d_tick t)") (auto simp: p sbind_def peek_def sret_def)
qed

lemma list_loop_ends:
  "\<forall>k\<ge>d_tick s + n. deadline \<le> clock k \<Longrightarrow> \<exists>b. fst (list_loop (Suc n) E clock deadline sent s) = Inr (Some b)"
proof (induction n arbitrary: s sent)
  case 0
  show ?case
    unfolding list_loop.simps case_prod_beta
  proof (rule turn_ends)
    show "\<exists>x. fst (sfold (list_market E clock) DEFAULT_MARKETS ([], sent) s) = Inr x" by (rule sfold_total) (rule list_market_total)
    show "keeps (later s) (sfold (list_market E clock) DEFAULT_MARKETS ([], sent))" by (rule keeps_sfold) (rule list_market_later)
  qed (use 0 in auto)
next
  case (Suc n)
  show ?case
    unfolding list_loop.simps(2) [of "Suc n"] case_prod_beta
  proof (rule turn_ends)
    show "\<exists>x. fst (sfold (list_market E clock) DEFAULT_MARKETS ([], sent) s) = Inr x" by (rule sfold_total) (rule list_market_total)
    show "keeps (later s) (sfold (list_market E clock) DEFAULT_MARKETS ([], sent))" by (rule keeps_sfold) (rule list_market_later)
  qed (rule Suc.IH, use Suc.prems in auto)
qed

lemma solvency_pass:
  shows "\<exists>x. fst (stry (sbind (jamkb_solvency E) (\<lambda>(solvent, _). sret solvent)) (\<lambda>_. sret False) s) = Inr x"
    and "keeps (later s) (stry (sbind (jamkb_solvency E) (\<lambda>(solvent, _). sret solvent)) (\<lambda>_. sret False))"
  by (rule stry_total, rule exI [of _ False], simp add: sret_def)
    (unfold jamkb_solvency_def footprint_octets_def rent_reserve_atomic_def case_prod_beta, intro keeps_intros)

lemma reserve_loop_ends:
  "\<forall>k\<ge>d_tick s + n. deadline \<le> clock k \<Longrightarrow> \<exists>b. fst (reserve_loop (Suc n) E clock deadline s) = Inr (Some b)"
proof (induction n arbitrary: s)
  case 0
  show ?case unfolding reserve_loop.simps by (rule turn_ends [OF solvency_pass]) (use 0 in auto)
next
  case (Suc n)
  show ?case
    unfolding reserve_loop.simps(2) [of "Suc n"]
    by (rule turn_ends [OF solvency_pass]) (rule Suc.IH, use Suc.prems in auto)
qed

lemma node_loop_ends: "fst (node_loop n E ready s) = Inr ()"
proof (induction n arbitrary: s)
  case (Suc n)
  obtain ok t where "stry (ask E ready) (\<lambda>_. sret False) s = (Inr ok, t)"
    using stry_total [of "\<lambda>_. sret False" "ask E ready" s] by (auto simp: sret_def) (metis prod.collapse)
  with Suc show ?case by (simp add: sbind_def sret_def)
qed (simp add: sret_def)

text \<open>C26: the process gets past its start-up waits. With a clock that passes every deadline, enough passes
  of \<^verbatim>\<open>ensure_markets\<close> and of \<^verbatim>\<open>wait_reserved\<close> return an answer, whatever the chain replies and whatever it
  raises, and no more passes are ever needed. \<^verbatim>\<open>wait_for_node\<close> returns after at most sixty questions.\<close>

theorem startup_waits_return:
  assumes "\<forall>d. \<exists>n. \<forall>k\<ge>n. d \<le> clock k"
  shows "(\<exists>n. \<forall>fuel\<ge>n. \<exists>b. fst (ensure_markets fuel E clock timeout s) = Inr (Some b)) \<and>
    (\<exists>n. \<forall>fuel\<ge>n. \<exists>b. fst (wait_reserved fuel E clock timeout s) = Inr (Some b)) \<and>
    fst (wait_for_node E ready s) = Inr ()"
proof (intro conjI)
  let ?d = "clock (d_tick s) + timeout" and ?s = "s\<lparr>d_tick := d_tick s + 1\<rparr>"
  obtain n where n: "\<forall>k\<ge>n. ?d \<le> clock k" using assms by blast
  have "\<exists>b. fst (list_loop fuel E clock ?d [] ?s) = Inr (Some b)" "\<exists>b. fst (reserve_loop fuel E clock ?d ?s) = Inr (Some b)"
    if "Suc n \<le> fuel" for fuel
    using that list_loop_ends [of ?s "fuel - 1" ?d clock E "[]"] reserve_loop_ends [of ?s "fuel - 1" ?d clock E] n
    by (cases fuel, simp, simp del: list_loop.simps reserve_loop.simps)+
  then have "\<exists>b. fst (ensure_markets fuel E clock timeout s) = Inr (Some b)"
    "\<exists>b. fst (wait_reserved fuel E clock timeout s) = Inr (Some b)" if "Suc n \<le> fuel" for fuel
    using that by (auto simp: ensure_markets_def wait_reserved_def sbind_def peek_def sret_def)
  then show "\<exists>n. \<forall>fuel\<ge>n. \<exists>b. fst (ensure_markets fuel E clock timeout s) = Inr (Some b)"
    "\<exists>n. \<forall>fuel\<ge>n. \<exists>b. fst (wait_reserved fuel E clock timeout s) = Inr (Some b)" by blast+
  show "fst (wait_for_node E ready s) = Inr ()" unfolding wait_for_node_def by (rule node_loop_ends)
qed

theorem startup_waits_return_witness:
  "\<exists>n. \<forall>fuel\<ge>n. \<exists>b. fst (ensure_markets fuel calm_env of_nat 30 empty_dex) = Inr (Some b)"
proof -
  have "\<exists>n. \<forall>k\<ge>n. d \<le> (of_nat k :: rat)" for d
    using real_arch_simple [of d] by (meson of_nat_le_iff order_trans)
  then show ?thesis using startup_waits_return [of of_nat calm_env 30 empty_dex] by blast
qed

end
