(* ===== verification/Server_Secrets.thy ===== *)
theory Server_Secrets
  imports Server_Frames
begin

text \<open>
  What the public view of a market gives away: nothing of a sealed order's terms. \<open>blank\<close> erases every
  secret of the queued sealed orders and the contents of the rounds in flight; \<open>alike\<close> relates states
  with the same erasure, and \<open>blind\<close> calls give the same answer in them. The private view, which asks
  for no proof of ownership, does show them.
\<close>

section \<open>Erasing the secrets\<close>

definition hide :: "live_order \<Rightarrow> live_order" where
  "hide od = (if o_sealed od then od\<lparr>o_price := 0, o_qty := 0, o_signed_price := 0, o_commit := None, o_reveal := [], o_ciphertext := []\<rparr>
     else od)"

definition hide_queue :: "(int, live_order list) dict \<Rightarrow> (int, live_order list) dict" where
  "hide_queue = map (\<lambda>(k, os). (k, map hide os))"

definition blank :: "dex \<Rightarrow> dex" where
  "blank s = s\<lparr>d_pending := hide_queue (d_pending s),
     d_inflight := map (\<lambda>(k, fr). (k, fr\<lparr>rr_sealed := map hide (rr_sealed fr)\<rparr>)) (d_inflight s)\<rparr>"

lemma hide_shown: "mempool_entry False (hide od) = mempool_entry False od"
  by (simp add: hide_def mempool_entry_def Let_def)

lemma dget_hide: "dget_or (hide_queue p) m [] = map hide (dget_or p m [])"
  by (induction p) (auto simp: hide_queue_def dget_or_def split: option.splits)

definition alike :: "dex \<Rightarrow> dex \<Rightarrow> bool" where
  "alike s t \<longleftrightarrow> d_tick s = d_tick t \<and> d_uid s = d_uid t \<and> d_next_auction s = d_next_auction t \<and>
     (\<forall>m. map hide (pend m s) = map hide (pend m t)) \<and> (\<forall>m. in_auction m s = in_auction m t)"

lemma alike_blank: "alike (blank s) s"
proof -
  have "hide (hide od) = hide od" for od by (simp add: hide_def)
  moreover have "in_auction m (blank s) = in_auction m s" for m
    by (cases "dget (d_inflight s) m") (simp_all add: in_auction_def blank_def map_of_map)
  ultimately show ?thesis by (simp add: alike_def blank_def dget_hide comp_def)
qed

lemma alike_new_object: "alike s t \<Longrightarrow> alike (new_object m od s) (new_object m od t)"
  by (simp add: alike_def new_object_def enqueue_def dget_or_dset in_auction_def)

lemma alike_arrive:
  assumes "alike s t"
  shows "alike (arrive E s) (arrive E t)"
proof -
  have "alike (arrivals xs s) (arrivals xs t)" for xs
    using assms by (induction xs arbitrary: s t) (simp_all add: arrivals_simps alike_new_object)
  moreover have "alike s t \<Longrightarrow> alike (s\<lparr>d_tick := n\<rparr>) (t\<lparr>d_tick := n\<rparr>)" for s t n by (simp add: alike_def in_auction_def)
  ultimately show ?thesis using assms by (simp add: arrive_arrivals alike_def)
qed

section \<open>Calls that cannot tell\<close>

definition blind :: "'a dexm \<Rightarrow> bool" where
  "blind c \<longleftrightarrow> (\<forall>s t. alike s t \<longrightarrow> fst (c s) = fst (c t) \<and> alike (snd (c s)) (snd (c t)))"

lemma blind_bind: "blind c \<Longrightarrow> (\<And>x. blind (f x)) \<Longrightarrow> blind (sbind c f)"
  unfolding blind_def st_run_bind
  by (intro allI impI, erule_tac x = s in allE, erule_tac x = t in allE) (auto split: prod.split sum.split)

lemma blind_prims:
  "blind (sret x)" "blind (slift r)" "blind (ask E f)" "blind (peek g)"
  "(\<And>s t. alike s t \<Longrightarrow> h s = h t) \<Longrightarrow> blind (sget h)"
  by (auto simp: blind_def st_simps ask_def peek_def alike_arrive) (auto simp: alike_def in_auction_def)

lemma blind_reads: "blind (market_set E k m)" "blind (mstate E p m)" "blind (book_of E m)"
  unfolding market_set_def mstate_def book_of_def storage_at_def storage_def
  by (intro blind_bind blind_prims)+

lemma alike_mempool: "alike s t \<Longrightarrow> map (mempool_entry False) (pend m s) = map (mempool_entry False) (pend m t)"
proof -
  have "map (mempool_entry False) os = map (mempool_entry False) (map hide os)" for os by (simp add: hide_shown)
  then show "alike s t \<Longrightarrow> ?thesis" unfolding alike_def by metis
qed

lemma alike_length: "alike s t \<Longrightarrow> length (pend m s) = length (pend m t)"
  unfolding alike_def by (metis length_map)


text \<open>The private view answers whoever names the account, with the terms of its sealed orders.\<close>

lemma mine_shows_sealed_terms:
  assumes "(m, os) \<in> set (d_pending s)" and "od \<in> set os"
  shows "\<exists>r\<in>set (queued_rows (o_account od) now s). mi_market r = m \<and> mr_oid (mi_row r) = o_oid od \<and>
    mr_price (mi_row r) = Some (disp (o_price od)) \<and> mr_qty (mi_row r) = Some (disp (o_qty od))"
proof -
  let ?r = "tag_mine (o_account od) now s m (if ends_carried (lo_outcome od) then ''settling'' else ''mempool'') (mempool_entry True od)"
  let ?row = "\<lambda>mid x. tag_mine (o_account od) now s mid (if ends_carried (lo_outcome x) then ''settling'' else ''mempool'') (mempool_entry True x)"
  have "?row m od \<in> set (map (?row m) (filter (\<lambda>x. o_account x = o_account od) os))"
    unfolding set_map using assms(2) by (intro imageI) simp
  then have "?r \<in> set (queued_rows (o_account od) now s)"
    unfolding queued_rows_def set_concat set_map using assms(1)
    by (intro UN_I [of "map (?row m) (filter (\<lambda>x. o_account x = o_account od) os)"] image_eqI [of _ _ "(m, os)"]) simp_all
  then show ?thesis by (rule bexI [rotated]) (simp add: tag_mine_def mempool_entry_def Let_def)
qed

end
