(* ===== verification/Server_Keeper.thy ===== *)
theory Server_Keeper
  imports Server_Frames
begin

text \<open>
  The reserve keeper's deposits credit at most once. The service credits a nonce once, so what the keeper
  must not do is replace a top-up whose fate is open by one under another nonce. \<open>topup_frame\<close> is the
  state frame of the keeper's record; \<open>core\<close> is the part of it that identifies the deposit.
\<close>

definition same_topup :: "dex \<Rightarrow> dex \<Rightarrow> bool" where
  "same_topup s t \<longleftrightarrow> d_topup t = d_topup s"

lemma arrivals_topup: "d_topup (arrivals xs s) = d_topup s"
  by (induction xs arbitrary: s) (simp_all add: arrivals_simps new_object_def)

interpretation topup_frame: state_frame E same_topup for E
  by unfold_locales (simp_all add: same_topup_def arrive_arrivals arrivals_topup)

definition core :: "topup \<Rightarrow> bytes option \<times> int option" where
  "core tu = (tu_payload tu, tu_nonce tu)"

text \<open>A deposit of the keeper: its payload is the encoded deposit, to the treasury, of its nonce.\<close>

definition keeper_deposit :: "bytes option \<times> int option \<Rightarrow> bool" where
  "keeper_deposit c \<longleftrightarrow> (\<exists>amount n p. amount \<noteq> 0 \<and> setup_deposit_payload FEE_ACCOUNT JAMKB amount n = Inr p \<and> c = (Some p, Some n))"

definition topup_wf :: "topup \<Rightarrow> bool" where
  "topup_wf tu \<longleftrightarrow> tu_nonce tu = None \<or> keeper_deposit (core tu)"

section \<open>What a look may do to the record\<close>

abbreviation kept_or_new :: "dex \<Rightarrow> dex \<Rightarrow> bool" where
  "kept_or_new s t \<equiv> core (d_topup t) = core (d_topup s) \<or> keeper_deposit (core (d_topup t))"

lemma keeps_lift: "(\<And>x. v = Inr x \<Longrightarrow> keeps P (f x)) \<Longrightarrow> keeps P (sbind (slift v) f)"
  by (cases v) (auto simp: keeps_def st_simps)

lemma frame_kept: "(\<And>s. keeps (same_topup s) c) \<Longrightarrow> keeps (\<lambda>t. Q (core (d_topup t))) c"
  by (rule keepsI) (metis topup_frame.frameD same_topup_def)

lemma keeper_reads:
  "keeps (\<lambda>t. Q (core (d_topup t))) (bal E a b)" "keeps (\<lambda>t. Q (core (d_topup t))) (mtr g)"
  "keeps (\<lambda>t. Q (core (d_topup t))) (reserve_target_atomic E)" "keeps (\<lambda>t. Q (core (d_topup t))) (deposit_nonce E)"
  by (rule frame_kept, intro keeps_intros,
      rule frame_kept, intro keeps_intros,
      rule frame_kept, unfold reserve_target_atomic_def footprint_octets_def, intro keeps_intros,
      rule frame_kept, unfold deposit_nonce_def, intro keeps_intros, simp add: same_topup_def)

lemma send_topup_kept: "keeps (\<lambda>t. Q (core (d_topup t))) (send_topup E p)"
proof -
  have "keeps (\<lambda>t. Q (core (d_topup t))) (submit E p None [])" by (rule frame_kept) (intro keeps_intros)
  moreover have "keeps (\<lambda>t. Q (core (d_topup t))) (set_topup (\<lambda>t. t\<lparr>tu_sent := None\<rparr>))"
    unfolding set_topup_def by (rule keeps_supd) (simp add: core_def)
  ultimately show ?thesis unfolding send_topup_def by (intro keeps_intros)
qed

lemma consider_topup_kept: "keeps (kept_or_new s) (consider_topup E now)"
proof -
  let ?Q = "\<lambda>c. c = core (d_topup s) \<or> keeper_deposit c"
  have pay: "deposit_payload E a b c (Some n) = slift (setup_deposit_payload a b c n)" for a b c n
    by (rule ext) (simp add: deposit_payload_def st_simps)
  have set: "keeps (kept_or_new s) (set_topup (\<lambda>t. \<lparr>tu_payload = Some p, tu_nonce = Some n, tu_sent = Some now\<rparr>))"
    if "setup_deposit_payload FEE_ACCOUNT JAMKB a n = Inr p" "a \<noteq> 0" for p n a
    unfolding set_topup_def by (rule keeps_supd) (use that in \<open>auto simp: core_def keeper_deposit_def\<close>)
  have new: "keeps (kept_or_new s) (sbind (deposit_nonce E) (\<lambda>n. sbind (slift (setup_deposit_payload FEE_ACCOUNT JAMKB a n)) (\<lambda>p.
      sthen (set_topup (\<lambda>t. \<lparr>tu_payload = Some p, tu_nonce = Some n, tu_sent = Some now\<rparr>)) (
      sthen (mtr (inc ''jamswap_reserve_topups_total'' [] 1)) (sthen (send_topup E p) (sret Sent))))))" if "a \<noteq> 0" for a
    by (intro keeps_bind keeps_lift keeps_then keeper_reads [where Q = ?Q] send_topup_kept [where Q = ?Q] keeps_pure)
      (rule set [OF _ that])
  show ?thesis
    unfolding consider_topup_def Let_def pay
    by (intro keeps_bind keeper_reads [where Q = ?Q]) (simp add: new keeps_pure)
qed

text \<open>C13: a keeper's top-up is resent unchanged until the service has admitted its nonce. Every look of the
  keeper leaves a record whose payload encodes a deposit to the treasury under the record's nonce; and
  if a top-up was in flight, the look keeps its payload and nonce unless the chain showed the nonce
  admitted. So the process never has two deposits open at once, whatever is refused, lost or late.\<close>

theorem keeper_one_deposit:
  assumes wf: "topup_wf (d_topup s)" and run: "reserve_keeper_tick E now s = (r, t)"
  shows "topup_wf (d_topup t) \<and> (\<forall>n. tu_nonce (d_topup s) = Some n \<longrightarrow>
    core (d_topup t) = core (d_topup s) \<or> fst (deposit_landed E FEE_ACCOUNT n s) = Inr True)"
proof (cases "tu_nonce (d_topup s)")
  case None
  then have "consider_topup E now s = (r, t)" using run by (simp add: reserve_keeper_tick_def st_simps)
  then have "kept_or_new s t" using keepsD [OF consider_topup_kept, of s s E now] by simp
  with None show ?thesis by (auto simp: topup_wf_def core_def)
next
  case (Some n)
  obtain l u where l: "deposit_landed E FEE_ACCOUNT n s = (l, u)" by (cases "deposit_landed E FEE_ACCOUNT n s")
  have "keeps (same_topup s) (deposit_landed E FEE_ACCOUNT n)" unfolding deposit_landed_def by (intro keeps_intros)
  then have u: "d_topup u = d_topup s" using topup_frame.frameD l by (metis same_topup_def snd_conv)
  let ?v = "u\<lparr>d_topup := (d_topup u)\<lparr>tu_payload := None, tu_nonce := None\<rparr>\<rparr>"
  consider e where "l = Inl e" | "l = Inr True" | "l = Inr False" by (metis (full_types) sum.exhaust)
  then show ?thesis
  proof cases
    case 1
    then have "t = u" using run Some l by (simp add: reserve_keeper_tick_def st_simps)
    then show ?thesis using u wf by simp
  next
    case 2
    then have "consider_topup E now ?v = (r, t)"
      using run Some l by (simp add: reserve_keeper_tick_def st_simps set_topup_def)
    then have "kept_or_new ?v t" using keepsD [OF consider_topup_kept, of ?v ?v E now] by simp
    then show ?thesis using 2 l Some by (auto simp: topup_wf_def core_def)
  next
    case 3
    let ?w = "u\<lparr>d_topup := (d_topup u)\<lparr>tu_sent := Some now\<rparr>\<rparr>"
    have w: "core (d_topup ?w) = core (d_topup s)" using u by (simp add: core_def)
    have "t = u \<or> t = snd (send_topup E (the (tu_payload (d_topup s))) ?w)"
      using run Some l 3 by (auto simp: reserve_keeper_tick_def st_simps set_topup_def split: if_splits prod.splits sum.splits)
    moreover have "core (d_topup (snd (send_topup E (the (tu_payload (d_topup s))) ?w))) = core (d_topup s)"
      using keepsD [OF send_topup_kept [where Q = "\<lambda>c. c = core (d_topup s)"]] w by blast
    ultimately have "core (d_topup t) = core (d_topup s)" using u by auto
    then show ?thesis using wf by (auto simp: topup_wf_def core_def)
  qed
qed

theorem keeper_one_deposit_witness:
  "topup_wf (d_topup (snd (reserve_keeper_tick calm_env 10 empty_dex))) \<and>
   tu_nonce (d_topup (snd (reserve_keeper_tick calm_env 10 empty_dex))) \<noteq> None"
proof -
  have w: "topup_wf (d_topup empty_dex)" by (simp add: topup_wf_def empty_dex_def)
  have n: "tu_nonce (d_topup (snd (reserve_keeper_tick calm_env 10 empty_dex))) \<noteq> None" by code_simp
  obtain r t where run: "reserve_keeper_tick calm_env 10 empty_dex = (r, t)" by (cases "reserve_keeper_tick calm_env 10 empty_dex")
  show ?thesis using keeper_one_deposit [OF w run] n run by simp
qed

end
