(* ===== verification/Server_Limits.thy ===== *)
theory Server_Limits
  imports Server_Frames
begin

text \<open>
  Bounds of the server's bookkeeping, and runs that show where it falls short: the watch list of released
  rounds is capped without ever forgetting a round seen on the chain; a carried remainder can be queued
  twice after a failed read; one registration the backend refuses stops every sweep; an order that
  fills keeps its expiry entry.
\<close>

section \<open>The watch list\<close>

abbreviation sighted :: "round_rec \<Rightarrow> bool" where "sighted z \<equiv> rr_ok_since z \<noteq> None"

lemma drop_unsighted_Some:
  "drop_unsighted zs = Some zs' \<Longrightarrow> length zs = Suc (length zs') \<and> filter sighted zs' = filter sighted zs \<and> subseq zs' zs"
  by (induction zs arbitrary: zs') (auto split: if_splits intro: list_emb_Cons)

lemma drop_unsighted_None: "drop_unsighted zs = None \<Longrightarrow> list_all sighted zs"
  by (induction zs) (auto split: if_splits)

text \<open>C27: the list of released rounds under watch is bounded and loses only what it may. Trimming leaves at
  most \<^verbatim>\<open>ZOMBIE_CAP\<close> rounds unless all that are left were sighted on the chain; it forgets no sighted
  round, keeps the order, never drops more than needed and changes nothing under the cap.\<close>

theorem zombie_watch_bounded:
  "(length (trim_zombies zs) \<le> ZOMBIE_CAP \<or> list_all (\<lambda>z. rr_ok_since z \<noteq> None) (trim_zombies zs)) \<and>
   filter (\<lambda>z. rr_ok_since z \<noteq> None) (trim_zombies zs) = filter (\<lambda>z. rr_ok_since z \<noteq> None) zs \<and>
   subseq (trim_zombies zs) zs \<and> min (length zs) ZOMBIE_CAP \<le> length (trim_zombies zs)"
proof (induction zs rule: trim_zombies.induct)
  case (1 zs)
  show ?case
  proof (cases "length zs \<le> ZOMBIE_CAP")
    case True
    then show ?thesis by (simp add: trim_zombies.simps)
  next
    case False
    show ?thesis
    proof (cases "drop_unsighted zs")
      case None
      then show ?thesis using False drop_unsighted_None [OF None] by (simp add: trim_zombies.simps [of zs])
    next
      case (Some zs')
      have "trim_zombies zs = trim_zombies zs'" using False Some by (simp add: trim_zombies.simps [of zs])
      then show ?thesis
        using 1 [OF False Some] drop_unsighted_Some [OF Some] False by (auto intro: subseq_order.trans)
    qed
  qed
qed

section \<open>A remainder queued twice\<close>

text \<open>Two remainders wait for a re-seal; the second has expired and the read of the last price fails. The
  first is queued, the error ends the sweep before the list is rewritten, and the next sweep queues it
  again.\<close>

definition waiting_order :: "nat \<Rightarrow> int \<Rightarrow> live_order" where
  "waiting_order uid oid = (plain_order uid 1 oid BUY 100 5)\<lparr>o_sealed := True, o_commit := Some (replicate 32 0)\<rparr>"

definition no_price :: env where
  "no_price = calm_env\<lparr>w_read := (\<lambda>t k. if take 2 k = ascii ''lp'' then Inl (ChainError ''timeout'') else Inr [])\<rparr>"

definition two_waiting :: dex where
  "two_waiting = empty_dex\<lparr>d_carry_retry := [(1, [waiting_order 0 7, waiting_order 1 8])], d_expiry := [((1, 1, 8), 50)], d_uid := 2\<rparr>"

lemma remainder_queued_twice:
  "map o_oid (pend 1 (snd (drain_carry_retry no_price 100 (snd (drain_carry_retry no_price 100 two_waiting))))) = [7, 7]"
  by code_simp

section \<open>A registration that stops the sweep\<close>

text \<open>A pending registration whose submission raises anything but backpressure: every sweep ends there, before
  any round is judged, and leaves the entry as it was.\<close>

definition no_route :: env where
  "no_route = calm_env\<lparr>w_submit := (\<lambda>_ _. Inl (ChainError ''no route''))\<rparr>"

definition one_registration :: dex where
  "one_registration = empty_dex\<lparr>d_reg_pending := [(replicate 32 1, \<lparr>rg_payload = [TAG_REGISTER], rg_t = 90, rg_attempts = 0, rg_last = 0\<rparr>)]\<rparr>"

lemma registration_stops_sweep:
  "\<exists>t. resolve_rounds_once no_route (Some 100) one_registration = (Inl (ChainError ''no route''), t) \<and>
     d_reg_pending t = d_reg_pending one_registration"
proof -
  have r: "fst (resolve_registrations_once no_route 100 one_registration) = Inl (ChainError ''no route'')"
    "d_reg_pending (snd (resolve_registrations_once no_route 100 one_registration)) = d_reg_pending one_registration"
    by code_simp+
  then obtain t where "resolve_registrations_once no_route 100 one_registration = (Inl (ChainError ''no route''), t)"
    by (metis prod.collapse)
  with r(2) show ?thesis by (simp add: resolve_rounds_once_def or_time_def truthy_def st_simps)
qed

section \<open>An expiry that outlives its order\<close>

definition same_expiry :: "order_key \<Rightarrow> dex \<Rightarrow> dex \<Rightarrow> bool" where
  "same_expiry k s t \<longleftrightarrow> dget (d_expiry t) k = dget (d_expiry s) k"

interpretation expiry_frame: state_frame E "same_expiry k" for E k
  by unfold_locales (simp_all add: same_expiry_def arrive_arrivals arrivals_frame)

lemma same_expiry_eq: "d_expiry t = d_expiry s \<Longrightarrow> same_expiry k s t"
  by (simp add: same_expiry_def)

lemma expiry_exec: "keeps (same_expiry k s) (record_exec E m od filled price sealed now landing)"
  unfolding record_exec_def Let_def by (intro keeps_intros; (rule same_expiry_eq)?; simp add: add_exec_def split: prod.split)

lemma expiry_executions: "keeps (same_expiry k s) (record_executions E m resting reveal public c rid)"
  unfolding record_executions_def record_submitted_def record_maker_def rests_def landing_of_def Let_def
  by (intro keeps_intros expiry_exec)

lemma expiry_carry: "keeps (same_expiry k s) (carry_sealed_remainders E m sealed fills now)"
proof -
  have q: "same_expiry k t (queue_retry m r t)" for t r by (rule same_expiry_eq) (simp add: queue_retry_def)
  have p: "same_expiry k t (t\<lparr>d_pending := x\<rparr>)" for t x by (rule same_expiry_eq) simp
  show ?thesis
    unfolding carry_sealed_remainders_def carry_order_def Let_def
    by (intro keeps_intros; (rule q p)?; simp split: option.split prod.split add: keeps_intros q)
qed

lemma expiry_pruned: "p \<notin> set ps \<Longrightarrow> keeps (same_expiry (m, p) s) (siter (end_pruned E m) ps)"
proof (induction ps)
  case (Cons x ps)
  then have "same_expiry (m, p) t (drop_expiry (m, x) t)" for t by (simp add: same_expiry_def drop_expiry_def)
  then have "keeps (same_expiry (m, p) s) (end_pruned E m x)" unfolding end_pruned_def by (intro keeps_intros)
  with Cons show ?case by (auto intro: keeps_then)
qed (simp add: keeps_pure)

text \<open>Settling a round removes the expiry of the orders it pruned from the book and of no other, in particular
  of no order it filled: once that time has passed, the market never counts as idle again.\<close>

lemma fill_keeps_expiry:
  assumes "(a, oid) \<notin> set (rr_pruned fr)"
  shows "dget (d_expiry (snd (finalize_round E m fr s))) (m, a, oid) = dget (d_expiry s) (m, a, oid)"
proof -
  have g: "same_expiry k t (grow_enc_cap E m fr t)" for k t
    by (rule same_expiry_eq) (auto simp: grow_enc_cap_def Let_def split: option.split)
  have "keeps (same_expiry (m, a, oid) s) (finalize_round E m fr)"
    unfolding finalize_round_def stage_seconds_def
    by (intro keeps_intros expiry_carry expiry_executions expiry_pruned [OF assms] g)
  then show ?thesis using expiry_frame.frameD unfolding same_expiry_def by blast
qed

lemma expired_market_not_idle:
  assumes "dget (d_expiry s) (m, a, oid) = Some x" and "x \<le> w_time E (d_tick s)"
  shows "fst (has_expired E m s) = Inr True"
  using assms map_of_SomeD [OF assms(1)] by (auto simp: has_expired_def st_simps peek_def list_ex_iff)

end
