(* ===== verification/Netwatch.thy ===== *)
theory Netwatch
  imports Chain_Types
begin

text \<open>
  \<^verbatim>\<open>src/offchain/netwatch.py\<close>, the watcher that decides whether a net of nodes follows one chain: the
  validator statistics of the chain state, the judgement of one sample of every node's heads, the verdict
  on a run of samples (one head, liveness, finality, authoring, peers), and the keys and octets of the
  state parity probe. A sample is the JSON object the sampler writes: optional fields are options, objects
  keyed by node name are dicts in insertion order. Sampling itself (sockets, threads) and the Prometheus
  exposition are not modelled. Of the report the modelled part is what decides it: texts that describe a
  result are left out, and a conflict is named by its slot.
\<close>

section \<open>Validator statistics\<close>

text \<open>The leading one bits of an octet, \<^verbatim>\<open>8 - (b ^ 0xFF).bit_length()\<close>, and a natural at an offset.\<close>

definition leading_ones :: "byte \<Rightarrow> nat" where
  "leading_ones b = length (takeWhile (\<lambda>k. 2 ^ 8 - 2 ^ k \<le> unat b) [7, 6, 5, 4, 3, 2, 1, 0])"

definition watch_decode_nat :: "bytes \<Rightarrow> nat \<Rightarrow> (nat \<times> nat) res" where
  "watch_decode_nat buf i =
     (if length buf \<le> i then Inl IndexError
      else let b = unat (buf ! i); n = leading_ones (buf ! i) in
        if n = 8 then Inr (le_dec (slice buf (i + 1) (i + 9)), i + 9)
        else if length buf < i + 1 + n then Inl (ValueError ''truncated natural'')
        else Inr ((b mod 2 ^ (7 - n)) * 2 ^ (8 * n) + le_dec (slice buf (i + 1) (i + 1 + n)), i + 1 + n))"

type_synonym pi_row = "int list"

definition stats_row :: "bytes \<Rightarrow> nat \<Rightarrow> pi_row" where
  "stats_row raw i = map (\<lambda>k. field (i + 4 * k) 4 raw) [0..<6]"

definition stats_rows :: "bytes \<Rightarrow> nat \<Rightarrow> (pi_row list \<times> nat) res" where
  "stats_rows raw i = bind_res (watch_decode_nat raw i) (\<lambda>(n, j).
     if length raw < j + 24 * n then Inl (ValueError ''truncated validator statistics'')
     else Inr (map (\<lambda>v. stats_row raw (j + 24 * v)) [0..<n], j + 24 * n))"

definition decode_validator_stats :: "bytes \<Rightarrow> (pi_row list \<times> pi_row list) res" where
  "decode_validator_stats raw = bind_res (stats_rows raw 0) (\<lambda>(cur, i). bind_res (stats_rows raw i) (\<lambda>(prev, _). Inr (cur, prev)))"

record pi_tracker =
  pt_epoch :: "int option"
  pt_total :: "(nat, pi_row) dict"
  pt_current :: "pi_row list"

definition no_pi :: pi_tracker where
  "no_pi = \<lparr>pt_epoch = None, pt_total = [], pt_current = []\<rparr>"

definition add_rows :: "pi_row \<Rightarrow> pi_row \<Rightarrow> pi_row" where
  "add_rows a b = map (\<lambda>(x, y). x + y) (zip a b)"

definition zero_row :: pi_row where "zero_row = replicate 6 0"

definition fold_epoch :: "pi_row list \<Rightarrow> (nat, pi_row) dict \<Rightarrow> (nat, pi_row) dict" where
  "fold_epoch prev tot = fold (\<lambda>(i, r) d. dset i (add_rows (dget_or d i zero_row) r) d) (enumerate 0 prev) tot"

definition pi_update :: "int \<Rightarrow> int \<Rightarrow> pi_row list \<Rightarrow> pi_row list \<Rightarrow> pi_tracker \<Rightarrow> pi_tracker" where
  "pi_update slot epoch_slots cur prev t = (let e = slot div epoch_slots in
     \<lparr>pt_epoch = (case pt_epoch t of None \<Rightarrow> Some e | Some x \<Rightarrow> Some (if x \<le> e then e else x)),
      pt_total = (case pt_epoch t of Some x \<Rightarrow> if x < e then fold_epoch prev (pt_total t) else pt_total t | None \<Rightarrow> pt_total t),
      pt_current = (case pt_epoch t of Some x \<Rightarrow> if x \<le> e then cur else pt_current t | None \<Rightarrow> cur)\<rparr>)"

text \<open>The totals per validator, \<^verbatim>\<open>credited()\<close>.\<close>

definition pi_credited :: "pi_tracker \<Rightarrow> pi_row list" where
  "pi_credited t = (let n = max (length (pt_current t)) (Max (set (0 # map (\<lambda>i. i + 1) (dkeys (pt_total t))))) in
     map (\<lambda>i. add_rows (dget_or (pt_total t) i zero_row) (if i < length (pt_current t) then pt_current t ! i else zero_row)) [0..<n])"

section \<open>Samples\<close>

record head =
  hd_slot :: int
  hd_hash :: "string option"
  hd_height :: "int option"

record node_obs =
  no_up :: bool
  no_client :: string
  no_kind :: string
  no_best :: "head option"
  no_final :: "head option"
  no_peers :: "int option"

type_synonym node = string

record pi_sample =
  ps_node :: node
  ps_slot :: int
  ps_current :: "pi_row list"
  ps_last :: "pi_row list"

record sample =
  sm_t :: time
  sm_epoch_slots :: int
  sm_slot_secs :: rat
  sm_nodes :: "(node, node_obs) dict"
  sm_head :: "(node, (int \<times> string) option) dict"
  sm_final :: "(node, (int \<times> string) option) dict"
  sm_pi :: "pi_sample option"

section \<open>One sample\<close>

text \<open>The value most share, unless the top count is tied.\<close>

definition modal :: "'a list \<Rightarrow> 'a option" where
  "modal xs = find (\<lambda>x. list_all (\<lambda>y. y = x \<or> count_list xs y < count_list xs x) xs) xs"

definition live_nodes :: "sample \<Rightarrow> (node \<times> head) list" where
  "live_nodes s = concat (map (\<lambda>(n, ob). case no_best ob of Some b \<Rightarrow> if no_up ob then [(n, b)] else [] | None \<Rightarrow> []) (sm_nodes s))"

definition held_hashes :: "(node, (int \<times> string) option) dict \<Rightarrow> (node \<times> string) list" where
  "held_hashes bs = concat (map (\<lambda>(n, b). case b of Some (_, h) \<Rightarrow> [(n, h)] | None \<Rightarrow> []) bs)"

record judgement =
  jg_ok :: bool
  jg_top :: "int option"
  jg_down :: "node list"
  jg_lag :: "(node \<times> int) list"
  jg_max_lag :: int
  jg_lagging :: "node list"
  jg_heads :: nat
  jg_split :: bool
  jg_height_split :: "int list"
  jg_unaligned :: "node list"
  jg_head_hash :: "string option"
  jg_hashes :: "(node \<times> string) list"
  jg_final_heads :: nat
  jg_final_hash :: "string option"

definition split_heights :: "head list \<Rightarrow> int list" where
  "split_heights bs = (let hs = filter (\<lambda>b. hd_hash b = None \<and> hd_height b \<noteq> None) bs in
     sort (remdups (filter (\<lambda>sl. 1 < length (remdups (map hd_height (filter (\<lambda>b. hd_slot b = sl) hs)))) (map hd_slot hs))))"

definition judge_sample :: "int \<Rightarrow> sample \<Rightarrow> judgement" where
  "judge_sample max_lag s =
     (let up = live_nodes s;
          down = sort (filter (\<lambda>n. n \<notin> set (map fst up)) (dkeys (sm_nodes s)));
          top = (if up = [] then None else Some (Max (set (map (hd_slot \<circ> snd) up))));
          lag = map (\<lambda>(n, b). (n, the top - hd_slot b)) up;
          hashes = held_hashes (sm_head s);
          unaligned = sort (map fst (filter (\<lambda>(n, b). b = None) (sm_head s)));
          height_split = split_heights (map snd up);
          heads = length (remdups (map snd hashes));
          worst = (if lag = [] then 0 else Max (set (map snd lag)));
          lagging = sort (map fst (filter (\<lambda>(n, v). max_lag < v) lag));
          split = (1 < heads \<or> height_split \<noteq> []);
          fhashes = held_hashes (sm_final s)
      in \<lparr>jg_ok = (up \<noteq> [] \<and> down = [] \<and> \<not> split \<and> unaligned = [] \<and> lagging = []), jg_top = top, jg_down = down, jg_lag = lag,
          jg_max_lag = worst, jg_lagging = lagging, jg_heads = heads, jg_split = split, jg_height_split = height_split,
          jg_unaligned = unaligned, jg_head_hash = modal (map snd hashes), jg_hashes = hashes,
          jg_final_heads = length (remdups (map snd fhashes)), jg_final_hash = modal (map snd fhashes)\<rparr>)"

definition problems :: "judgement \<Rightarrow> string list" where
  "problems j = (if jg_down j \<noteq> [] then [''down''] else []) @ (if jg_split j then [''split''] else []) @
     (if jg_lagging j \<noteq> [] \<or> jg_unaligned j \<noteq> [] then [''lag''] else [])"

section \<open>One head over a run\<close>

record episode =
  ep_start_t :: time
  ep_start_slot :: int
  ep_end_t :: time
  ep_end_slot :: int
  ep_samples :: nat
  ep_kinds :: "string list"
  ep_nodes :: "node list"

text \<open>The nodes a bad sample blames: \<open>jg_hashes\<close> that differ from the shared one when the heads are split.\<close>

definition blamed :: "judgement \<Rightarrow> node list" where
  "blamed j = jg_down j @ jg_lagging j @ jg_unaligned j @
     (if jg_split j then map fst (filter (\<lambda>(n, h). Some h \<noteq> jg_head_hash j) (jg_hashes j)) else [])"

definition extend_episode :: "time \<Rightarrow> judgement \<Rightarrow> episode option \<Rightarrow> episode" where
  "extend_episode t j cur =
     (let top = (case jg_top j of Some x \<Rightarrow> x | None \<Rightarrow> (case cur of Some ep \<Rightarrow> ep_end_slot ep | None \<Rightarrow> 0));
          ep = (case cur of Some ep \<Rightarrow> ep | None \<Rightarrow> \<lparr>ep_start_t = t, ep_start_slot = top, ep_end_t = t, ep_end_slot = top,
                 ep_samples = 0, ep_kinds = [], ep_nodes = []\<rparr>)
      in ep\<lparr>ep_end_t := t, ep_end_slot := top, ep_samples := ep_samples ep + 1,
            ep_kinds := sort (remdups (ep_kinds ep @ problems j)), ep_nodes := sort (remdups (ep_nodes ep @ blamed j))\<rparr>)"

fun episodes_from :: "episode option \<Rightarrow> (time \<times> judgement) list \<Rightarrow> episode list \<times> bool" where
  "episodes_from cur [] = (case cur of None \<Rightarrow> ([], False) | Some ep \<Rightarrow> ([ep], True))"
| "episodes_from cur ((t, j) # js) =
     (if jg_ok j then (case cur of None \<Rightarrow> episodes_from None js
        | Some ep \<Rightarrow> (case episodes_from None js of (eps, op) \<Rightarrow> (ep # eps, op)))
      else episodes_from (Some (extend_episode t j cur)) js)"

definition episode_slots :: "rat \<Rightarrow> episode \<Rightarrow> rat" where
  "episode_slots S ep = round_to 1 (max (of_int (ep_end_slot ep - ep_start_slot ep)) ((ep_end_t ep - ep_start_t ep) / S))"

record one_head_report =
  oh_pass :: bool
  oh_samples :: nat
  oh_ok_samples :: nat
  oh_max_lag :: int
  oh_max_heads :: nat
  oh_episodes :: nat
  oh_longest :: rat
  oh_open :: bool
  oh_failed :: "episode list"
  oh_sample_episodes :: "episode list"

definition one_head_of :: "rat \<Rightarrow> int \<Rightarrow> sample list \<Rightarrow> judgement list \<Rightarrow> one_head_report" where
  "one_head_of S E samples judged =
     (let (eps, op) = episodes_from None (zip (map sm_t samples) judged);
          too_long = filter (\<lambda>ep. of_int E < episode_slots S ep) eps;
          ok_samples = length (filter jg_ok judged)
      in \<lparr>oh_pass = (0 < ok_samples \<and> too_long = []), oh_samples = length samples, oh_ok_samples = ok_samples,
          oh_max_lag = Max (set (0 # map jg_max_lag judged)), oh_max_heads = Max (set (0 # map jg_heads judged)),
          oh_episodes = length eps, oh_longest = Max (set (0 # map (episode_slots S) eps)), oh_open = op,
          oh_failed = take 10 too_long, oh_sample_episodes = take 10 eps\<rparr>)"

section \<open>Liveness\<close>

definition node_names :: "sample list \<Rightarrow> node list" where
  "node_names samples = sort (remdups (concat (map (dkeys \<circ> sm_nodes) samples)))"

definition best_slots :: "node \<Rightarrow> sample list \<Rightarrow> int list" where
  "best_slots n samples = concat (map (\<lambda>s. map (hd_slot \<circ> snd) (filter (\<lambda>(m, _). m = n) (live_nodes s))) samples)"

definition advance_of :: "sample list \<Rightarrow> node \<Rightarrow> int option" where
  "advance_of samples n = (case best_slots n samples of [] \<Rightarrow> None | x # xs \<Rightarrow> Some (last (x # xs) - x))"

definition long_enough :: "rat \<Rightarrow> sample list \<Rightarrow> bool" where
  "long_enough S samples \<longleftrightarrow> 2 * S \<le> sm_t (last samples) - sm_t (hd samples)"

definition liveness_pass :: "rat \<Rightarrow> sample list \<Rightarrow> bool" where
  "liveness_pass S samples \<longleftrightarrow> \<not> long_enough S samples \<or>
     list_all (\<lambda>n. case advance_of samples n of None \<Rightarrow> False | Some a \<Rightarrow> 0 < a) (node_names samples)"

section \<open>Finality\<close>

record fin_obs =
  fo_t :: time
  fo_final :: int
  fo_best :: int
  fo_was_down :: bool

definition final_heads :: "node \<Rightarrow> sample \<Rightarrow> (head \<times> head) option" where
  "final_heads n s = (case dget (sm_nodes s) n of None \<Rightarrow> None
     | Some ob \<Rightarrow> if no_up ob then (case (no_final ob, no_best ob) of (Some f, Some b) \<Rightarrow> Some (f, b) | _ \<Rightarrow> None) else None)"

fun fin_trail :: "node \<Rightarrow> bool \<Rightarrow> sample list \<Rightarrow> fin_obs list" where
  "fin_trail n down [] = []"
| "fin_trail n down (s # ss) = (case final_heads n s of
       None \<Rightarrow> fin_trail n True ss
     | Some (f, b) \<Rightarrow> \<lparr>fo_t = sm_t s, fo_final = hd_slot f, fo_best = hd_slot b, fo_was_down = down\<rparr> # fin_trail n False ss)"

text \<open>The hashes (and, for nodes without them, the heights) reported as final, with their slots.\<close>

definition has_hash :: "head \<Rightarrow> bool" where
  "has_hash f \<longleftrightarrow> hd_hash f \<noteq> None \<and> hd_hash f \<noteq> Some []"

definition sample_hashes :: "node list \<Rightarrow> sample \<Rightarrow> (int \<times> string \<times> node) list" where
  "sample_hashes names s =
     concat (map (\<lambda>n. case final_heads n s of Some (f, _) \<Rightarrow> if has_hash f then [(hd_slot f, the (hd_hash f), n)] else [] | None \<Rightarrow> []) names) @
     concat (map (\<lambda>(n, b). case b of Some (sl, h) \<Rightarrow> [(sl, h, n)] | None \<Rightarrow> []) (sm_final s))"

definition sample_heights :: "node list \<Rightarrow> sample \<Rightarrow> (int \<times> int \<times> node) list" where
  "sample_heights names s = concat (map (\<lambda>n. case final_heads n s of
       Some (f, _) \<Rightarrow> if \<not> has_hash f \<and> hd_height f \<noteq> None then [(hd_slot f, the (hd_height f), n)] else []
     | None \<Rightarrow> []) names)"

text \<open>The slots at which two different values were reported.\<close>

definition conflict_slots :: "(int \<times> 'v \<times> node) list \<Rightarrow> int list" where
  "conflict_slots es = sort (remdups (filter (\<lambda>sl. 1 < length (remdups (map (fst \<circ> snd) (filter (\<lambda>e. fst e = sl) es)))) (map fst es)))"

definition regressions_of :: "fin_obs list \<Rightarrow> (fin_obs \<times> fin_obs) list" where
  "regressions_of obs = filter (\<lambda>(a, b). fo_final b < fo_final a \<and> \<not> fo_was_down b) (zip obs (tl obs))"

fun longest_stall :: "rat \<Rightarrow> fin_obs \<Rightarrow> rat \<Rightarrow> fin_obs list \<Rightarrow> rat" where
  "longest_stall S start stall [] = stall"
| "longest_stall S start stall (ob # obs) =
     (if fo_final ob \<noteq> fo_final start then longest_stall S ob stall obs
      else longest_stall S start (max stall (max (of_int (fo_best ob - fo_best start)) ((fo_t ob - fo_t start) / S))) obs)"

definition stall_of :: "rat \<Rightarrow> fin_obs list \<Rightarrow> rat" where
  "stall_of S obs = (case obs of [] \<Rightarrow> 0 | ob # rest \<Rightarrow> round_to 1 (longest_stall S ob 0 rest))"

definition advanced :: "fin_obs list \<Rightarrow> bool" where
  "advanced obs \<longleftrightarrow> obs \<noteq> [] \<and> fo_final (hd obs) < fo_final (last obs)"

datatype finality_mode = Auto | Require | Report

record finality_report =
  fr_pass :: bool
  fr_finalizing :: bool
  fr_not_advanced :: "node list"
  fr_stalled :: "node list"
  fr_conflicts :: "int list"
  fr_height_conflicts :: "int list"
  fr_regressions :: "(node \<times> fin_obs \<times> fin_obs) list"

definition finality_of :: "rat \<Rightarrow> finality_mode \<Rightarrow> int \<Rightarrow> sample list \<Rightarrow> finality_report" where
  "finality_of S mode stall_limit samples =
     (let names = node_names samples;
          trail = (\<lambda>n. fin_trail n False samples);
          conflicts = conflict_slots (concat (map (sample_hashes names) samples));
          height_conflicts = conflict_slots (concat (map (sample_heights names) samples));
          regressions = concat (map (\<lambda>n. map (Pair n) (regressions_of (trail n))) names);
          runs = list_ex (\<lambda>n. advanced (trail n)) names;
          stalled = filter (\<lambda>n. of_int stall_limit < stall_of S (trail n)) names;
          not_advanced = filter (\<lambda>n. \<not> advanced (trail n)) names;
          clean = (conflicts = [] \<and> height_conflicts = [] \<and> regressions = [])
      in \<lparr>fr_pass = (if runs then not_advanced = [] \<and> clean \<and> stalled = []
                    else \<not> (mode = Require \<and> long_enough S samples) \<and> clean),
          fr_finalizing = runs, fr_not_advanced = (if runs then not_advanced else []), fr_stalled = stalled,
          fr_conflicts = conflicts, fr_height_conflicts = height_conflicts, fr_regressions = regressions\<rparr>)"

section \<open>The verdict\<close>

definition DEFAULT_MAX_LAG :: int where "DEFAULT_MAX_LAG = 3"
definition DEFAULT_EPOCH_SLOTS :: int where "DEFAULT_EPOCH_SLOTS = 12"
definition DEFAULT_SLOT_SECS :: rat where "DEFAULT_SLOT_SECS = 6"

record watch_opts =
  wo_max_lag :: int
  wo_epoch_slots :: int
  wo_slot_secs :: rat
  wo_finality :: finality_mode
  wo_final_stall_slots :: int
  wo_require_authoring :: bool
  wo_min_peers :: "int option"

record watch_report =
  wr_pass :: bool
  wr_samples :: nat
  wr_one_head :: one_head_report
  wr_liveness :: bool
  wr_finality :: finality_report
  wr_authoring :: "(bool \<times> int list) option"
  wr_peers :: "(bool \<times> node list) option"

text \<open>Python's \<^verbatim>\<open>x or y\<close> on numbers.\<close>

definition num_or :: "'a :: zero \<Rightarrow> 'a \<Rightarrow> 'a" where "num_or x y = (if x = 0 then y else x)"

text \<open>The blocks consensus credits to each validator, and whether that passes.\<close>

definition authoring_of :: "bool \<Rightarrow> int \<Rightarrow> sample list \<Rightarrow> (bool \<times> int list) option" where
  "authoring_of required E samples =
     (let ps = concat (map (\<lambda>s. case sm_pi s of None \<Rightarrow> [] | Some p \<Rightarrow> [(num_or (sm_epoch_slots s) E, p)]) samples) in
      if ps = [] then (if required then Some (False, []) else None)
      else let tr = fold (\<lambda>(e, p). pi_update (ps_slot p) e (ps_current p) (ps_last p)) ps no_pi;
               blocks = map hd (pi_credited tr)
           in Some (\<not> (required \<and> (0 \<in> set blocks \<or> blocks = [])), blocks))"

definition peers_of :: "int \<Rightarrow> sample \<Rightarrow> bool \<times> node list" where
  "peers_of min_peers s =
     (let few = sort (map fst (filter (\<lambda>(n, ob). no_kind ob = ''jip2'' \<and>
            (case no_peers ob of None \<Rightarrow> True | Some p \<Rightarrow> p < min_peers)) (sm_nodes s)))
      in (few = [], few))"

text \<open>\<open>None\<close> when no sample names a node.\<close>

definition watch_verdict :: "watch_opts \<Rightarrow> sample list \<Rightarrow> watch_report option" where
  "watch_verdict w all_samples =
     (let samples = filter (\<lambda>s. sm_nodes s \<noteq> []) all_samples in
      if samples = [] then None
      else let E = num_or (num_or (wo_epoch_slots w) (sm_epoch_slots (last samples))) DEFAULT_EPOCH_SLOTS;
               S = num_or (num_or (wo_slot_secs w) (sm_slot_secs (last samples))) DEFAULT_SLOT_SECS;
               one_head = one_head_of S E samples (map (judge_sample (wo_max_lag w)) samples);
               live = liveness_pass S samples;
               fin = finality_of S (wo_finality w) (num_or (wo_final_stall_slots w) E) samples;
               auth = authoring_of (wo_require_authoring w) E samples;
               peers = map_option (\<lambda>k. peers_of k (last samples)) (wo_min_peers w)
           in Some \<lparr>wr_pass = (oh_pass one_head \<and> live \<and> (fr_pass fin \<or> wo_finality w = Report) \<and>
                      (case auth of None \<Rightarrow> True | Some (ok, _) \<Rightarrow> ok) \<and> (case peers of None \<Rightarrow> True | Some (ok, _) \<Rightarrow> ok)),
                 wr_samples = length samples, wr_one_head = one_head, wr_liveness = live, wr_finality = fin,
                 wr_authoring = auth, wr_peers = peers\<rparr>)"

section \<open>The parity probe\<close>

text \<open>The service keys the probe reads, each once, in order. Every id packs into four octets.\<close>

definition key32 :: "string \<Rightarrow> int list \<Rightarrow> bytes res" where
  "key32 prefix ids = bind_res (map_res (pack 4) ids) (\<lambda>bs. Inr (ascii prefix @ concat bs))"

definition FEE_HANDLE :: int where "FEE_HANDLE = 0xFFFFFFFF"

definition account_keys :: "int list \<Rightarrow> int \<Rightarrow> bytes list res" where
  "account_keys assets h = bind_res (map_res (\<lambda>a. key32 ''b'' [a, h]) assets) (\<lambda>bal.
     if h = FEE_HANDLE then Inr bal
     else bind_res (map_res (\<lambda>p. key32 p [h]) [''pk'', ''nc'', ''sq'', ''sc'']) (\<lambda>ks. Inr (bal @ ks)))"

definition service_keys :: "int list \<Rightarrow> int list \<Rightarrow> int list \<Rightarrow> bytes list \<Rightarrow> bytes list \<Rightarrow> bytes list res" where
  "service_keys markets accounts assets rounds extra =
     bind_res (map_res (\<lambda>m. map_res (\<lambda>p. key32 p [m]) [''mkt'', ''book'', ''cv'', ''lp'', ''commits'', ''cage'', ''encset'']) markets) (\<lambda>mk.
     bind_res (map_res (\<lambda>a. key32 ''cust'' [a]) assets) (\<lambda>cust.
     bind_res (map_res (account_keys assets) (accounts @ [FEE_HANDLE])) (\<lambda>acc.
       Inr (rev (remdups (rev (map ascii [''markets'', ''nexthandle'', ''govnonce'', ''comnonce'', ''committee''] @ concat mk @ cust @
         concat acc @ map (\<lambda>r. ascii ''rl'' @ r) rounds @ extra)))))))"

text \<open>The octets the digest is taken of: every key with its value or its absence.\<close>

definition digest_pair :: "bytes \<times> bytes option \<Rightarrow> bytes res" where
  "digest_pair kv = bind_res (pack 4 (int (length (fst kv)))) (\<lambda>lk. case snd kv of
       None \<Rightarrow> Inr (lk @ fst kv @ [0])
     | Some v \<Rightarrow> bind_res (pack 4 (int (length v))) (\<lambda>lv. Inr (lk @ fst kv @ [1] @ lv @ v)))"

definition digest_input :: "(bytes \<times> bytes option) list \<Rightarrow> bytes res" where
  "digest_input pairs = bind_res (map_res digest_pair pairs) (\<lambda>bs. Inr (ascii ''jamswap:v1:parity'' @ concat bs))"

definition state_digest :: "(bytes \<times> bytes option) list \<Rightarrow> bytes res" where
  "state_digest pairs = bind_res (digest_input pairs) (\<lambda>b. Inr (blake2b256 b))"

section \<open>What a pass means\<close>

lemma conflict_slots_Nil:
  assumes "conflict_slots es = []" and "(sl, v, n) \<in> set es" and "(sl, v', n') \<in> set es"
  shows "v = v'"
proof (rule ccontr)
  assume ne: "v \<noteq> v'"
  let ?vs = "map (fst \<circ> snd) (filter (\<lambda>e. fst e = sl) es)"
  have "{v, v'} \<subseteq> set ?vs" using assms(2,3) by force
  then have "card {v, v'} \<le> length (remdups ?vs)" by (simp only: length_remdups_card_conv) (intro card_mono; simp)
  then have "1 < length (remdups ?vs)" using ne by simp
  moreover have "sl \<in> set (map fst es)" using assms(2) by force
  ultimately have "sl \<in> set (conflict_slots es)" unfolding conflict_slots_def set_sort set_remdups by simp
  with assms(1) show False by simp
qed

lemma final_heads_name: "final_heads n s = Some p \<Longrightarrow> s \<in> set samples \<Longrightarrow> n \<in> set (node_names samples)"
  by (auto simp: final_heads_def node_names_def dkeys_def split: option.splits intro!: bexI [of _ s] dest!: map_of_SomeD)
    (metis fst_conv image_eqI)

lemma final_heads_nodes: "final_heads n s = Some p \<Longrightarrow> sm_nodes s \<noteq> []"
  by (auto simp: final_heads_def)

lemma final_hash_listed:
  "final_heads n s = Some (f, b) \<Longrightarrow> has_hash f \<Longrightarrow> n \<in> set names \<Longrightarrow> (hd_slot f, the (hd_hash f), n) \<in> set (sample_hashes names s)"
  by (auto simp: sample_hashes_def intro!: bexI [of _ n])

lemma verdict_pass:
  assumes "watch_verdict w ss = Some r" and "wr_pass r"
  obtains S E where "finality_of S (wo_finality w) (num_or (wo_final_stall_slots w) E) (filter (\<lambda>s. sm_nodes s \<noteq> []) ss) = wr_finality r"
    and "one_head_of S E (filter (\<lambda>s. sm_nodes s \<noteq> []) ss) (map (judge_sample (wo_max_lag w)) (filter (\<lambda>s. sm_nodes s \<noteq> []) ss)) = wr_one_head r"
    and "oh_pass (wr_one_head r)" and "wo_finality w \<noteq> Report \<Longrightarrow> fr_pass (wr_finality r)"
  using assms by (auto simp: watch_verdict_def Let_def split: if_splits)

lemma finality_pass_clean:
  "fr_pass (finality_of S mode k ss) \<Longrightarrow>
     conflict_slots (concat (map (sample_hashes (node_names ss)) ss)) = [] \<and>
     (\<forall>n\<in>set (node_names ss). regressions_of (fin_trail n False ss) = [])"
  by (auto simp: finality_of_def Let_def split: if_splits)

lemma judged_ok:
  assumes "jg_ok (judge_sample max_lag s)"
  shows "\<forall>n\<in>set (dkeys (sm_nodes s)). \<exists>b. (n, b) \<in> set (live_nodes s)"
    and "\<forall>(n, h)\<in>set (held_hashes (sm_head s)). \<forall>(n', h')\<in>set (held_hashes (sm_head s)). h = h'"
proof -
  have d: "sort (filter (\<lambda>n. n \<notin> set (map fst (live_nodes s))) (dkeys (sm_nodes s))) = []"
    and h: "\<not> 1 < length (remdups (map snd (held_hashes (sm_head s))))"
    using assms by (auto simp: judge_sample_def Let_def)
  show "\<forall>n\<in>set (dkeys (sm_nodes s)). \<exists>b. (n, b) \<in> set (live_nodes s)"
    using arg_cong [OF d, of set] by (force simp: filter_empty_conv)
  have c: "card (set (map snd (held_hashes (sm_head s)))) \<le> 1" using h by (simp only: length_remdups_card_conv not_less)
  have "\<forall>a\<in>set (map snd (held_hashes (sm_head s))). \<forall>b\<in>set (map snd (held_hashes (sm_head s))). a = b"
    using c by (subst card_le_Suc0_iff_eq [symmetric]) simp_all
  then show "\<forall>(n, h)\<in>set (held_hashes (sm_head s)). \<forall>(n', h')\<in>set (held_hashes (sm_head s)). h = h'" by force
qed

text \<open>Between two looks at a node that was never down in between, its finalized slot does not fall.\<close>

lemma regressions_Nil: "regressions_of obs = [] \<Longrightarrow> i + 1 < length obs \<Longrightarrow> \<not> fo_was_down (obs ! (i + 1)) \<Longrightarrow>
    fo_final (obs ! i) \<le> fo_final (obs ! (i + 1))"
proof -
  assume r: "regressions_of obs = []" and i: "i + 1 < length obs" and d: "\<not> fo_was_down (obs ! (i + 1))"
  have "(obs ! i, obs ! (i + 1)) \<in> set (zip obs (tl obs))"
    using i by (auto simp: set_zip nth_tl intro!: exI [of _ i])
  with r d show ?thesis by (auto simp: regressions_of_def filter_empty_conv)
qed

definition final_agreement :: "sample list \<Rightarrow> bool" where
  "final_agreement ss \<longleftrightarrow> (\<forall>s\<in>set ss. \<forall>s'\<in>set ss. \<forall>n f b n' f' b'. final_heads n s = Some (f, b) \<longrightarrow> has_hash f \<longrightarrow>
     final_heads n' s' = Some (f', b') \<longrightarrow> has_hash f' \<longrightarrow> hd_slot f = hd_slot f' \<longrightarrow> hd_hash f = hd_hash f')"

definition never_falls :: "fin_obs list \<Rightarrow> bool" where
  "never_falls obs \<longleftrightarrow> (\<forall>i. i + 1 < length obs \<longrightarrow> \<not> fo_was_down (obs ! (i + 1)) \<longrightarrow> fo_final (obs ! i) \<le> fo_final (obs ! (i + 1)))"

definition united :: "sample \<Rightarrow> bool" where
  "united s \<longleftrightarrow> sm_nodes s \<noteq> [] \<and> (\<forall>n\<in>set (dkeys (sm_nodes s)). \<exists>b. (n, b) \<in> set (live_nodes s)) \<and>
     (\<forall>(n, h)\<in>set (held_hashes (sm_head s)). \<forall>(n', h')\<in>set (held_hashes (sm_head s)). h = h')"

lemma clean_agreement:
  assumes "conflict_slots (concat (map (sample_hashes (node_names ss)) ss)) = []"
  shows "final_agreement ss"
  unfolding final_agreement_def
proof (intro ballI allI impI)
  fix s s' n f b n' f' b'
  assume *: "s \<in> set ss" "final_heads n s = Some (f, b)" "has_hash f" "s' \<in> set ss" "final_heads n' s' = Some (f', b')" "has_hash f'"
    and sl: "hd_slot f = hd_slot f'"
  have l: "(hd_slot f, the (hd_hash f), n) \<in> set (concat (map (sample_hashes (node_names ss)) ss))"
    if "s \<in> set ss" "final_heads n s = Some (f, b)" "has_hash f" for s n f b
    using final_hash_listed [OF that(2,3) final_heads_name [OF that(2,1)]] that(1) by auto
  from conflict_slots_Nil [OF assms l [OF *(1-3)]] l [OF *(4-6)] sl have "the (hd_hash f) = the (hd_hash f')" by simp
  with * show "hd_hash f = hd_hash f'" by (auto simp: has_hash_def)
qed

lemma agreement_named: "final_agreement (filter (\<lambda>s. sm_nodes s \<noteq> []) ss) \<Longrightarrow> final_agreement ss"
  unfolding final_agreement_def
proof (intro ballI allI impI, goal_cases)
  case (1 s s' n f b n' f' b')
  have "s \<in> set (filter (\<lambda>s. sm_nodes s \<noteq> []) ss)" "s' \<in> set (filter (\<lambda>s. sm_nodes s \<noteq> []) ss)"
    using 1(2,3,4,6) by (simp_all add: final_heads_nodes)
  with 1 show ?case by blast
qed

lemma one_head_united:
  assumes "oh_pass (one_head_of S E ss (map (judge_sample k) ss))" and "\<forall>s\<in>set ss. sm_nodes s \<noteq> []"
  shows "\<exists>s\<in>set ss. united s"
proof -
  have "filter jg_ok (map (judge_sample k) ss) \<noteq> []"
    using assms(1) by (auto simp: one_head_of_def Let_def filter_map split: prod.splits)
  then obtain s where "s \<in> set ss" "jg_ok (judge_sample k s)" by (auto simp: filter_empty_conv)
  with judged_ok [of k s] assms(2) show ?thesis unfolding united_def by blast
qed


text \<open>Two JIP-2 nodes over three slots, finalizing one slot behind.\<close>

definition watch_head :: "int \<Rightarrow> head" where
  "watch_head sl = \<lparr>hd_slot = sl, hd_hash = Some (CHR ''h'' # show_int sl), hd_height = None\<rparr>"

definition watch_node :: "int \<Rightarrow> node_obs" where
  "watch_node sl = \<lparr>no_up = True, no_client = ''client'', no_kind = ''jip2'', no_best = Some (watch_head sl),
     no_final = Some (watch_head (sl - 1)), no_peers = Some 1\<rparr>"

definition watch_sample :: "int \<Rightarrow> sample" where
  "watch_sample sl = \<lparr>sm_t = of_int (6 * sl), sm_epoch_slots = 12, sm_slot_secs = 6,
     sm_nodes = [(''a'', watch_node sl), (''b'', watch_node sl)],
     sm_head = [(''a'', Some (sl, CHR ''h'' # show_int sl)), (''b'', Some (sl, CHR ''h'' # show_int sl))],
     sm_final = [(''a'', Some (sl - 1, CHR ''h'' # show_int (sl - 1)))], sm_pi = None\<rparr>"

definition watch_defaults :: watch_opts where
  "watch_defaults = \<lparr>wo_max_lag = DEFAULT_MAX_LAG, wo_epoch_slots = 0, wo_slot_secs = 0, wo_finality = Auto,
     wo_final_stall_slots = 0, wo_require_authoring = False, wo_min_peers = None\<rparr>"

lemma watch_run_passes: "map_option wr_pass (watch_verdict watch_defaults (map watch_sample [1, 2, 4])) = Some True"
  by code_simp


section \<open>Episodes are the maximal bad runs\<close>

abbreviation bad :: "time \<times> judgement \<Rightarrow> bool" where "bad x \<equiv> \<not> jg_ok (snd x)"

text \<open>The maximal runs of samples that are not ok, from the definition of a run.\<close>

function bad_runs :: "(time \<times> judgement) list \<Rightarrow> (time \<times> judgement) list list" where
  "bad_runs js = (case dropWhile (\<lambda>x. \<not> bad x) js of [] \<Rightarrow> [] | x # xs \<Rightarrow> (x # takeWhile bad xs) # bad_runs (dropWhile bad xs))"
  by pat_completeness auto

termination
proof (relation "measure length")
  fix js :: "(time \<times> judgement) list" and x xs
  assume "dropWhile (\<lambda>x. \<not> bad x) js = x # xs"
  then have "length (x # xs) \<le> length js" by (metis length_dropWhile_le)
  with length_dropWhile_le [of bad xs] show "(dropWhile bad xs, js) \<in> measure length" by simp
qed simp

declare bad_runs.simps [simp del]

lemma bad_runs_simps:
  "bad_runs [] = []"
  "\<not> bad x \<Longrightarrow> bad_runs (x # xs) = bad_runs xs"
  "bad x \<Longrightarrow> bad_runs (x # xs) = (x # takeWhile bad xs) # bad_runs (dropWhile bad xs)"
  by (subst bad_runs.simps, simp) (subst (1 2) bad_runs.simps, simp, subst bad_runs.simps, simp)

definition episode_span :: "episode \<Rightarrow> time \<times> time \<times> nat" where
  "episode_span ep = (ep_start_t ep, ep_end_t ep, ep_samples ep)"

definition run_span :: "(time \<times> judgement) list \<Rightarrow> time \<times> time \<times> nat" where
  "run_span run = (fst (hd run), fst (last run), length run)"

lemma extend_span:
  "ep_start_t (extend_episode t j cur) = (case cur of None \<Rightarrow> t | Some ep \<Rightarrow> ep_start_t ep)"
  "ep_end_t (extend_episode t j cur) = t"
  "ep_samples (extend_episode t j cur) = (case cur of None \<Rightarrow> 1 | Some ep \<Rightarrow> ep_samples ep + 1)"
  by (simp_all add: extend_episode_def Let_def split: option.split)

lemma episodes_from_spans:
  "map episode_span (fst (episodes_from None js)) = map run_span (bad_runs js)"
  "map episode_span (fst (episodes_from (Some ep) js)) =
     (ep_start_t ep, (if takeWhile bad js = [] then ep_end_t ep else fst (last (takeWhile bad js))), ep_samples ep + length (takeWhile bad js))
       # map run_span (bad_runs (dropWhile bad js))"
proof (induction js arbitrary: ep)
  case Nil
  { case 1 show ?case by (simp add: bad_runs_simps) }
  { case 2 show ?case by (simp add: bad_runs_simps episode_span_def) }
next
  case (Cons x js)
  obtain t j where x: "x = (t, j)" by force
  { case 1 show ?case using Cons.IH
      by (cases "jg_ok j") (auto simp: x bad_runs_simps run_span_def extend_span split: prod.split) }
  { case 2 show ?case using Cons.IH
      by (cases "jg_ok j") (auto simp: x bad_runs_simps episode_span_def extend_span split: prod.split) }
qed

text \<open>C29: the divergence episodes a verdict judges are exactly the maximal runs of consecutive samples that are not
  ok, in order, each from its first to its last bad sample with the number of samples in it.\<close>

theorem episodes_are_bad_runs:
  "map episode_span (fst (episodes_from None js)) = map run_span (bad_runs js)"
  by (rule episodes_from_spans)

section \<open>The digest speaks for the state\<close>

lemma pack_same: "pack n x = Inr a \<Longrightarrow> pack n y = Inr b \<Longrightarrow> a @ u = b @ v \<Longrightarrow> x = y \<and> u = v"
proof -
  assume p: "pack n x = Inr a" "pack n y = Inr b" and e: "a @ u = b @ v"
  then have l: "length a = n" "length b = n" by (auto simp: pack_def split: if_splits)
  with e have ab: "a = b" "u = v" by simp_all
  from p have d: "int (le_dec a) = x" "int (le_dec b) = y" by (auto simp: pack_def fits_def le_dec_le_enc nat_less_iff split: if_splits)
  show ?thesis using ab d by simp
qed

lemma digest_pair_prefix:
  assumes "digest_pair p = Inr a" and "digest_pair q = Inr b" and "a @ u = b @ v"
  shows "p = q \<and> u = v"
proof -
  obtain k x k' y where pq: "p = (k, x)" "q = (k', y)" by force
  obtain lk ra where a: "pack 4 (int (length k)) = Inr lk" "a = lk @ k @ ra"
    using assms(1) by (auto simp: digest_pair_def pq res_simps split: option.splits)
  obtain lk' rb where b: "pack 4 (int (length k')) = Inr lk'" "b = lk' @ k' @ rb"
    using assms(2) by (auto simp: digest_pair_def pq res_simps split: option.splits)
  have "int (length k) = int (length k')" and r: "k @ ra @ u = k' @ rb @ v"
    using pack_same [OF a(1) b(1), of "k @ ra @ u" "k' @ rb @ v"] assms(3) a(2) b(2) by simp_all
  then have k: "k = k'" "ra @ u = rb @ v" by simp_all
  show ?thesis
  proof (cases x)
    case None
    then have "ra = [0]" using assms(1) a by (simp add: digest_pair_def pq)
    with k show ?thesis using assms(2) b None by (auto simp: digest_pair_def pq res_simps split: option.splits)
  next
    case (Some xv)
    obtain lv where lv: "pack 4 (int (length xv)) = Inr lv" "ra = 1 # lv @ xv"
      using assms(1) a Some by (auto simp: digest_pair_def pq res_simps)
    obtain yv lv' where y: "y = Some yv" "pack 4 (int (length yv)) = Inr lv'" "rb = 1 # lv' @ yv"
      using assms(2) b k lv(2) by (auto simp: digest_pair_def pq res_simps split: option.splits)
    from k(2) lv(2) y(3) have "lv @ (xv @ u) = lv' @ (yv @ v)" by simp
    from pack_same [OF lv(1) y(2) this] have "length xv = length yv" "xv @ u = yv @ v" by simp_all
    then show ?thesis using Some y k by (simp add: pq)
  qed
qed

lemma digest_pair_nonempty: "digest_pair p = Inr a \<Longrightarrow> a \<noteq> []"
  by (auto simp: digest_pair_def res_simps split: option.splits)

lemma digest_pairs_inj:
  "map_res digest_pair ps = Inr as \<Longrightarrow> map_res digest_pair qs = Inr bs \<Longrightarrow> concat as = concat bs \<Longrightarrow> ps = qs"
proof (induction ps arbitrary: as qs bs)
  case Nil
  then show ?case by (cases qs) (auto simp: res_simps dest: digest_pair_nonempty)
next
  case (Cons p ps)
  then obtain a as' where a: "digest_pair p = Inr a" "map_res digest_pair ps = Inr as'" "as = a # as'" by (auto simp: res_simps)
  show ?case
  proof (cases qs)
    case Nil
    then show ?thesis using Cons.prems a digest_pair_nonempty by auto
  next
    case (Cons q qs')
    then obtain b bs' where b: "digest_pair q = Inr b" "map_res digest_pair qs' = Inr bs'" "bs = b # bs'"
      using Cons.prems(2) by (auto simp: res_simps)
    have "p = q" "concat as' = concat bs'" using digest_pair_prefix [OF a(1) b(1)] Cons.prems(3) a(3) b(3) by auto
    with Cons.IH [OF a(2) b(2)] Cons show ?thesis by simp
  qed
qed

text \<open>C31: the octets the parity digest hashes determine the state read. Two lists of keys with their values or
  absences that give the same octets are the same list, so nodes whose digests agree hold the same values
  under the same keys (up to a collision of the hash).\<close>

theorem digest_input_injective:
  assumes "digest_input ps = Inr b" and "digest_input qs = Inr b"
  shows "ps = qs"
  using assms digest_pairs_inj by (auto simp: digest_input_def res_simps)

theorem digest_input_injective_witness:
  "\<exists>b. digest_input [(ascii ''lp'', Some [7]), (ascii ''cv'', None)] = Inr b \<and>
     digest_input [(ascii ''lp'', Some [7]), (ascii ''cv'', Some [])] \<noteq> Inr b"
proof -
  have "is_ok (digest_input [(ascii ''lp'', Some [7]), (ascii ''cv'', None)])" by code_simp
  then obtain b where b: "digest_input [(ascii ''lp'', Some [7]), (ascii ''cv'', None)] = Inr b"
    by (cases "digest_input [(ascii ''lp'', Some [7]), (ascii ''cv'', None)]") simp_all
  from digest_input_injective [OF b, of "[(ascii ''lp'', Some [7]), (ascii ''cv'', Some [])]"] b show ?thesis by auto
qed

end
