(* ===== verification/Dex_Fuzz.thy ===== *)
theory Dex_Fuzz
  imports Server_State
begin

text \<open>
  The deep-match fuzzer (\<^verbatim>\<open>offchain/dex_fuzz.py\<close>): the generator of balanced, crossing batches with
  the bookkeeping it expects back, and the oracle that judges the chain's state after the batch.
  Random draws are arguments: one \<open>fuzz_draw\<close> per pair and the shuffle as a function, of which only
  Python's documented contract (ranges, and that a shuffle permutes) is ever used. Floats are
  rationals; the forensic texts of a halt are not modelled.

  The two theorems join the oracle to the clearing: a generated batch clears in full inside its
  band, and the oracle accepts precisely the ledger that such a clearing leads to.
\<close>

definition ACCTS :: "int list" where "ACCTS = [1, 2, 3, 4, 5, 6]"
definition FEE_FLAT :: int where "FEE_FLAT = 300"
definition FUZZ_TREASURY :: int where "FUZZ_TREASURY = 4294967295"

text \<open>The bands: \<^verbatim>\<open>BUY_LO, BUY_HI\<close> and \<^verbatim>\<open>SELL_LO, SELL_HI\<close>.\<close>

definition BUY_BAND :: "rat \<times> rat" where "BUY_BAND = (1010 / 1000, 1020 / 1000)"
definition SELL_BAND :: "rat \<times> rat" where "SELL_BAND = (980 / 1000, 990 / 1000)"

section \<open>Generating a batch\<close>

text \<open>What one pass of the generator's loop draws: \<^verbatim>\<open>rng.sample(ACCTS, 2)\<close>, \<^verbatim>\<open>rng.randint(1, 20)\<close>
  and the two \<^verbatim>\<open>rng.uniform\<close> calls.\<close>

record fuzz_draw =
  dr_buyer :: int
  dr_seller :: int
  dr_qty :: int
  dr_bid :: rat
  dr_ask :: rat

definition valid_draw :: "fuzz_draw \<Rightarrow> bool" where
  "valid_draw d \<longleftrightarrow> dr_buyer d \<in> set ACCTS \<and> dr_seller d \<in> set ACCTS \<and> dr_buyer d \<noteq> dr_seller d \<and>
     1 \<le> dr_qty d \<and> dr_qty d \<le> 20 \<and> fst BUY_BAND \<le> dr_bid d \<and> dr_bid d \<le> snd BUY_BAND \<and>
     fst SELL_BAND \<le> dr_ask d \<and> dr_ask d \<le> snd SELL_BAND"

type_synonym fuzz_order = "int \<times> int \<times> int \<times> rat"

text \<open>The generator's tuple. The dicts are keyed by \<open>ACCTS\<close> and start at 0.\<close>

record fuzz_batch =
  fz_orders :: "fuzz_order list"
  fz_dot :: "int \<Rightarrow> int"
  fz_volume :: int
  fz_buy :: "int \<Rightarrow> int"
  fz_sell :: "int \<Rightarrow> int"
  fz_norders :: "int \<Rightarrow> int"

definition no_batch :: fuzz_batch where
  "no_batch = \<lparr>fz_orders = [], fz_dot = (\<lambda>_. 0), fz_volume = 0, fz_buy = (\<lambda>_. 0), fz_sell = (\<lambda>_. 0), fz_norders = (\<lambda>_. 0)\<rparr>"

definition bump :: "int \<Rightarrow> int \<Rightarrow> (int \<Rightarrow> int) \<Rightarrow> int \<Rightarrow> int" where
  "bump h x f = f(h := f h + x)"

definition add_pair :: "fuzz_draw \<Rightarrow> fuzz_batch \<Rightarrow> fuzz_batch" where
  "add_pair d b = (let q = dr_qty d; pb = round_to 4 (dr_bid d); ps = round_to 4 (dr_ask d) in
     b\<lparr>fz_orders := fz_orders b @ [(dr_buyer d, 0, q, pb), (dr_seller d, 1, q, ps)],
       fz_dot := bump (dr_seller d) (- q) (bump (dr_buyer d) q (fz_dot b)),
       fz_buy := bump (dr_buyer d) q (fz_buy b),
       fz_sell := bump (dr_seller d) q (fz_sell b),
       fz_norders := bump (dr_seller d) 1 (bump (dr_buyer d) 1 (fz_norders b)),
       fz_volume := fz_volume b + q\<rparr>)"

definition gen_batch :: "(fuzz_order list \<Rightarrow> fuzz_order list) \<Rightarrow> fuzz_draw list \<Rightarrow> fuzz_batch" where
  "gen_batch shuffle draws =
     (let b = fold add_pair draws no_batch in b\<lparr>fz_orders := shuffle (fz_orders b)\<rparr>)"

text \<open>The terms under which \<^verbatim>\<open>_place\<close> signs an order. The door numbers the orders as they arrive.\<close>

definition place_terms :: "int \<Rightarrow> fuzz_order \<Rightarrow> order" where
  "place_terms oid fo = (case fo of (h, side, qty, price_d) \<Rightarrow>
     (mk_order oid side (py_round (price_d * of_int SCALE)) (qty * SCALE))\<lparr>o_account := h\<rparr>)"

definition fuzz_placed :: "fuzz_order list \<Rightarrow> order list" where
  "fuzz_placed fos = map (\<lambda>(i, fo). place_terms (int i) fo) (enumerate 0 fos)"

section \<open>The oracle\<close>

record chain_view =
  cw_bal :: "int \<Rightarrow> int \<Rightarrow> int"
  cw_cv :: int
  cw_book :: "order list"

definition supply_of :: "(int \<Rightarrow> int \<Rightarrow> int) \<Rightarrow> int \<Rightarrow> int" where
  "supply_of bals asset = sum_list (map (bals asset) (ACCTS @ [FUZZ_TREASURY]))"

definition trader_supply :: "(int \<Rightarrow> int \<Rightarrow> int) \<Rightarrow> int \<Rightarrow> int" where
  "trader_supply bals asset = sum_list (map (bals asset) ACCTS)"

datatype halt = LIVENESS | CONSERVATION | NON_NEGATIVE | JAMKB_TRADER | VOLUME | POSITION |
  FEE_ACCRUAL | BOOK_RESIDUE | VALUE

definition in_value_band :: "int \<Rightarrow> fuzz_batch \<Rightarrow> chain_view \<Rightarrow> chain_view \<Rightarrow> int \<Rightarrow> bool" where
  "in_value_band tol b before after h =
     (let du = of_int (cw_bal after USDC h - cw_bal before USDC h) / of_int SCALE;
          lo = - of_int (fz_buy b h) * snd BUY_BAND + of_int (fz_sell b h) * fst SELL_BAND - of_int tol;
          hi = - of_int (fz_buy b h) * fst SELL_BAND + of_int (fz_sell b h) * snd BUY_BAND + of_int tol in
      lo - 1 / 1000000 \<le> du \<and> du \<le> hi + (1 / 1000000 :: rat))"

definition verify :: "chain_view \<Rightarrow> chain_view \<Rightarrow> fuzz_batch \<Rightarrow> bool \<Rightarrow> int \<Rightarrow> halt option" where
  "verify before after b quiescent tol =
     (if \<not> quiescent then Some LIVENESS
      else if list_ex (\<lambda>a. supply_of (cw_bal before) a \<noteq> supply_of (cw_bal after) a) [USDC, DOT] then Some CONSERVATION
      else if list_ex (\<lambda>a. list_ex (\<lambda>h. cw_bal after a h < 0) ACCTS) [USDC, DOT, JAMKB] then Some NON_NEGATIVE
      else if trader_supply (cw_bal after) JAMKB \<noteq> trader_supply (cw_bal before) JAMKB then Some JAMKB_TRADER
      else if tol < \<bar>(cw_cv after - cw_cv before) div SCALE - fz_volume b\<bar> then Some VOLUME
      else if list_ex (\<lambda>h. tol * SCALE < \<bar>(cw_bal after DOT h - cw_bal before DOT h) -
          (fz_dot b h * SCALE - FEE_FLAT * fz_norders b h)\<bar>) ACCTS then Some POSITION
      else if cw_bal after DOT FUZZ_TREASURY - cw_bal before DOT FUZZ_TREASURY \<noteq> FEE_FLAT * sum_list (map (fz_norders b) ACCTS)
        then Some FEE_ACCRUAL
      else if cw_book after \<noteq> [] then Some BOOK_RESIDUE
      else if list_ex (\<lambda>h. \<not> in_value_band tol b before after h) ACCTS then Some VALUE
      else None)"

section \<open>A balanced crossing batch clears in full\<close>

lemma sum_list_tight:
  fixes f g :: "'a \<Rightarrow> int"
  assumes "\<forall>x\<in>set xs. f x \<le> g x" and "sum_list (map f xs) = sum_list (map g xs)" and "x \<in> set xs"
  shows "f x = g x"
  using assms
proof (induction xs)
  case (Cons y ys)
  have "sum_list (map f ys) \<le> sum_list (map g ys)" using Cons.prems(1) by (intro sum_list_mono) simp
  moreover have "f y \<le> g y" using Cons.prems(1) by simp
  ultimately have "f y = g y" "sum_list (map f ys) = sum_list (map g ys)" using Cons.prems(2) by auto
  with Cons show ?case by auto
qed simp

definition side_total :: "int \<Rightarrow> order list \<Rightarrow> int" where
  "side_total s os = sum_list (map o_qty (filter (\<lambda>od. o_side od = s) os))"

lemma side_split:
  "sum_list (map o_qty (filter (\<lambda>od. o_side od = s \<and> P od) os)) +
   sum_list (map o_qty (filter (\<lambda>od. o_side od = s \<and> \<not> P od) os)) = side_total s (os :: order list)"
  by (induction os) (auto simp: side_total_def)

text \<open>A side that trades in full at a price has nobody beyond it.\<close>

lemma side_in_full:
  fixes os :: "order list"
  assumes "\<forall>od\<in>set os. 0 < o_qty od" and "side_total s os \<le> sum_list (map o_qty (filter (\<lambda>od. o_side od = s \<and> P od) os))"
    and "od \<in> set os" and "o_side od = s"
  shows "P od"
proof (rule ccontr)
  assume "\<not> P od"
  let ?r = "map o_qty (filter (\<lambda>od. o_side od = s \<and> \<not> P od) os)"
  have "o_qty od \<le> sum_list ?r"
    using assms(1,3,4) \<open>\<not> P od\<close> by (intro member_le_sum_list) (auto intro: less_imp_le)
  moreover have "0 < o_qty od" using assms(1,3) by simp
  ultimately show False using side_split [of s P os] assms(2) by linarith
qed

lemma side_total_ge:
  fixes os :: "order list"
  assumes "\<forall>od\<in>set os. 0 < o_qty od"
  shows "sum_list (map o_qty (filter (\<lambda>od. o_side od = s \<and> P od) os)) \<le> side_total s os"
proof -
  have "0 \<le> sum_list (map o_qty (filter (\<lambda>od. o_side od = s \<and> \<not> P od) os))"
    using assms by (intro sum_list_nonneg) (auto intro: less_imp_le)
  then show ?thesis using side_split [of s P os] by linarith
qed

definition balanced_cross :: "order list \<Rightarrow> int \<Rightarrow> int \<Rightarrow> bool" where
  "balanced_cross os V p0 \<longleftrightarrow> wf_batch os \<and> (\<forall>od\<in>set os. 0 < o_qty od) \<and> 0 < V \<and>
     side_total BUY os = V \<and> side_total SELL os = V \<and> (\<forall>od\<in>set os. eligible p0 od)"

lemma balanced_crossD:
  assumes "balanced_cross os V p0"
  shows "wf_batch os" "\<forall>od\<in>set os. 0 < o_qty od" "0 < V" "side_total BUY os = V" "side_total SELL os = V"
    "\<forall>od\<in>set os. eligible p0 od"
  using assms by (simp_all add: balanced_cross_def)

lemma volume_and_limits:
  assumes bc: "balanced_cross os V p0"
  shows "cl_volume (clear os) = V" and "od \<in> set os \<Longrightarrow> eligible (cl_price (clear os)) od"
proof -
  note wf = balanced_crossD(1) [OF bc] and qty = balanced_crossD(2) [OF bc] and V0 = balanced_crossD(3) [OF bc]
    and buys = balanced_crossD(4) [OF bc] and sells = balanced_crossD(5) [OF bc] and cross = balanced_crossD(6) [OF bc]
  obtain p v i where b: "clear_scan os = (p, v, i)" by (cases "clear_scan os")
  have "filter (\<lambda>od. o_side od = BUY \<and> p0 \<le> o_price od) os = filter (\<lambda>od. o_side od = BUY) os"
    "filter (\<lambda>od. o_side od = SELL \<and> o_price od \<le> p0) os = filter (\<lambda>od. o_side od = SELL) os"
    using cross by (auto simp: eligible_def intro!: filter_cong)
  then have "V \<le> cl_volume (clear os)"
    using clear_volume_bound [OF wf, of p0] buys sells by (simp add: demand_at_def supply_at_def side_total_def)
  moreover have cv: "cl_volume (clear os) = v" using b by (simp add: clear_def)
  ultimately have v0: "v \<noteq> 0" and Vv: "V \<le> v" using V0 by auto
  have cp: "cl_price (clear os) = p" using clear_simps [OF b v0] by simp
  have ds: "v \<le> demand_at os p" "v \<le> supply_at os p"
    using clear_scanned [OF wf] v0 unfolding b by (auto simp: scanned_def)
  have "demand_at os p \<le> V" unfolding demand_at_def buys [symmetric] by (rule side_total_ge [OF qty])
  with Vv ds(1) have vV: "v = V" by linarith
  then show "cl_volume (clear os) = V" using cv by simp
  have B: "p \<le> o_price od" if "od \<in> set os" "o_side od = BUY" for od
    using side_in_full [OF qty _ that, where P = "\<lambda>od. p \<le> o_price od"] ds(1) vV buys by (simp add: demand_at_def)
  have S: "o_price od \<le> p" if "od \<in> set os" "o_side od = SELL" for od
    using side_in_full [OF qty _ that, where P = "\<lambda>od. o_price od \<le> p"] ds(2) vV sells by (simp add: supply_at_def)
  show "eligible (cl_price (clear os)) od" if "od \<in> set os"
    using that B S wf by (auto simp: cp eligible_def wf_batch_def)
qed

lemma fills_in_full:
  assumes bc: "balanced_cross os V p0" and od: "od \<in> set os"
  shows "fill_of (cl_fills (clear os)) (o_oid od) = o_qty od"
proof -
  note wf = balanced_crossD(1) [OF bc] and qty = balanced_crossD(2) [OF bc] and V0 = balanced_crossD(3) [OF bc]
    and buys = balanced_crossD(4) [OF bc] and sells = balanced_crossD(5) [OF bc]
  note lims = volume_and_limits(2) [OF bc]
  obtain p v i where b: "clear_scan os = (p, v, i)" by (cases "clear_scan os")
  have v: "v = V" using volume_and_limits(1) [OF bc] b by (simp add: clear_def split: if_splits)
  then have v0: "v \<noteq> 0" using V0 by simp
  have cp: "cl_price (clear os) = p" using clear_simps [OF b v0] by simp
  let ?f = "\<lambda>od. fill_of (cl_fills (clear os)) (o_oid od)"
  have le: "?f x \<le> o_qty x" if "x \<in> set os" for x
    using clear_fill [OF wf that] qty that by (auto simp: share_def less_imp_le)
  have eb: "set (eligible_buys os p) = {x\<in>set os. o_side x = BUY}"
    using lims by (auto simp: eligible_buys_def cp eligible_def)
  have es: "set (eligible_sells os p) = {x\<in>set os. o_side x = SELL}"
    using lims by (auto simp: eligible_sells_def cp eligible_def)
  have fb: "filter (\<lambda>x. o_side x = BUY \<and> p \<le> o_price x) os = filter (\<lambda>x. o_side x = BUY) os"
    "filter (\<lambda>x. o_side x = SELL \<and> o_price x \<le> p) os = filter (\<lambda>x. o_side x = SELL) os"
    using lims by (auto simp: cp eligible_def intro!: filter_cong)
  have tb: "sum_list (map o_qty (eligible_buys os p)) = V" "sum_list (map o_qty (eligible_sells os p)) = V"
    unfolding eligible_buys_def eligible_sells_def fb sum_list_map_sort_key
    using buys sells by (simp_all add: side_total_def)
  show ?thesis
  proof (cases "o_side od = BUY")
    case True
    show ?thesis by (rule sum_list_tight [where xs = "eligible_buys os p" and f = ?f and g = o_qty])
      (use le od eb True clear_sum_eligible(1) [OF wf b v0] v tb in auto)
  next
    case False
    then have "o_side od = SELL" using wf od by (auto simp: wf_batch_def)
    then show ?thesis by (intro sum_list_tight [where xs = "eligible_sells os p" and f = ?f and g = o_qty])
      (use le od es clear_sum_eligible(2) [OF wf b v0] v tb in auto)
  qed
qed

section \<open>What the generator guarantees\<close>

text \<open>The two quantities an order adds to its side, and the limits every generated order keeps.\<close>

definition side_qty :: "int \<Rightarrow> fuzz_order \<Rightarrow> int" where
  "side_qty s fo = (case fo of (h, side, q, p) \<Rightarrow> if side = s then q else 0)"

definition in_band :: "fuzz_order \<Rightarrow> bool" where
  "in_band fo = (case fo of (h, side, q, p) \<Rightarrow> 0 < q \<and>
     (side = BUY \<and> 10100 \<le> py_round (p * of_int SCALE) \<and> py_round (p * of_int SCALE) \<le> 10200 \<or>
      side = SELL \<and> 9800 \<le> py_round (p * of_int SCALE) \<and> py_round (p * of_int SCALE) \<le> 9900))"

definition good_batch :: "fuzz_batch \<Rightarrow> bool" where
  "good_batch b \<longleftrightarrow> (\<forall>fo\<in>set (fz_orders b). in_band fo) \<and>
     sum_list (map (side_qty BUY) (fz_orders b)) = fz_volume b \<and>
     sum_list (map (side_qty SELL) (fz_orders b)) = fz_volume b \<and>
     (\<forall>h. fz_dot b h = fz_buy b h - fz_sell b h \<and> 0 \<le> fz_buy b h \<and> 0 \<le> fz_sell b h) \<and>
     sum_list (map (fz_buy b) ACCTS) = fz_volume b \<and> sum_list (map (fz_sell b) ACCTS) = fz_volume b"

lemma sum_bump: "h \<in> set ACCTS \<Longrightarrow> sum_list (map (bump h x f) ACCTS) = sum_list (map f ACCTS) + x"
  by (auto simp: ACCTS_def bump_def)

lemma round_to_atomic: "py_round (round_to 4 x * of_int SCALE) = py_round (x * 10000)"
  by (simp add: round_to_def SCALE_def)

lemma round_within:
  assumes "of_int lo \<le> x * 10000" and "x * 10000 \<le> of_int hi"
  shows "lo \<le> py_round (round_to 4 x * of_int SCALE) \<and> py_round (round_to 4 x * of_int SCALE) \<le> hi"
  using py_round_mono [OF assms(1)] py_round_mono [OF assms(2)] by (simp add: round_to_atomic)

lemma add_pair_orders:
  assumes "valid_draw d"
  shows "in_band (dr_buyer d, 0, dr_qty d, round_to 4 (dr_bid d))" "in_band (dr_seller d, 1, dr_qty d, round_to 4 (dr_ask d))"
proof -
  have "of_int 10100 \<le> dr_bid d * 10000" "dr_bid d * 10000 \<le> of_int 10200"
    "of_int 9800 \<le> dr_ask d * 10000" "dr_ask d * 10000 \<le> of_int 9900" "0 < dr_qty d"
    using assms by (simp_all add: valid_draw_def BUY_BAND_def SELL_BAND_def)
  then show "in_band (dr_buyer d, 0, dr_qty d, round_to 4 (dr_bid d))" "in_band (dr_seller d, 1, dr_qty d, round_to 4 (dr_ask d))"
    using round_within [of 10100 "dr_bid d" 10200] round_within [of 9800 "dr_ask d" 9900]
    by (simp_all add: in_band_def BUY_def SELL_def)
qed

lemma add_pair_sel:
  "fz_orders (add_pair d b) = fz_orders b @ [(dr_buyer d, 0, dr_qty d, round_to 4 (dr_bid d)), (dr_seller d, 1, dr_qty d, round_to 4 (dr_ask d))]"
  "fz_dot (add_pair d b) = bump (dr_seller d) (- dr_qty d) (bump (dr_buyer d) (dr_qty d) (fz_dot b))"
  "fz_buy (add_pair d b) = bump (dr_buyer d) (dr_qty d) (fz_buy b)"
  "fz_sell (add_pair d b) = bump (dr_seller d) (dr_qty d) (fz_sell b)"
  "fz_volume (add_pair d b) = fz_volume b + dr_qty d"
  by (simp_all add: add_pair_def Let_def)

lemma add_pair_good:
  assumes d: "valid_draw d" and b: "good_batch b"
  shows "good_batch (add_pair d b)"
proof -
  have acc: "dr_buyer d \<in> set ACCTS" "dr_seller d \<in> set ACCTS" "0 \<le> dr_qty d" using d by (simp_all add: valid_draw_def)
  have h: "bump (dr_seller d) (- dr_qty d) (bump (dr_buyer d) (dr_qty d) (fz_dot b)) h =
      bump (dr_buyer d) (dr_qty d) (fz_buy b) h - bump (dr_seller d) (dr_qty d) (fz_sell b) h \<and>
      0 \<le> bump (dr_buyer d) (dr_qty d) (fz_buy b) h \<and> 0 \<le> bump (dr_seller d) (dr_qty d) (fz_sell b) h" for h
    using b acc(3) by (simp add: good_batch_def bump_def)
  have od: "\<forall>fo\<in>set (fz_orders (add_pair d b)). in_band fo"
    using b add_pair_orders [OF d] by (auto simp: good_batch_def add_pair_sel)
  have t: "sum_list (map (side_qty s) (fz_orders (add_pair d b))) = sum_list (map (side_qty s) (fz_orders b)) + dr_qty d"
    if "s = BUY \<or> s = SELL" for s
    using that by (auto simp: add_pair_sel side_qty_def BUY_def SELL_def)
  show ?thesis
    unfolding good_batch_def using od h t b acc
    by (simp add: good_batch_def add_pair_sel(2-) sum_bump)
qed

lemma fold_pairs_good: "list_all valid_draw ds \<Longrightarrow> good_batch b \<Longrightarrow> good_batch (fold add_pair ds b)"
  by (induction ds arbitrary: b) (auto intro: add_pair_good)

lemma fold_pairs_volume:
  "list_all valid_draw ds \<Longrightarrow> ds \<noteq> [] \<Longrightarrow> fz_volume b < fz_volume (fold add_pair ds b)"
proof (induction ds arbitrary: b)
  case (Cons d ds)
  then have "fz_volume b < fz_volume (add_pair d b)" by (simp add: add_pair_def Let_def valid_draw_def)
  with Cons show ?case by (cases "ds = []") (auto intro: less_trans)
qed simp

lemma gen_batch_good:
  assumes "list_all valid_draw ds" and "\<And>xs. mset (shuffle xs) = mset xs"
  shows "good_batch (gen_batch shuffle ds)" and "ds \<noteq> [] \<Longrightarrow> 0 < fz_volume (gen_batch shuffle ds)"
proof -
  have "good_batch no_batch" by (simp add: good_batch_def no_batch_def ACCTS_def)
  from fold_pairs_good [OF assms(1) this] have g: "good_batch (fold add_pair ds no_batch)" .
  have "set (shuffle xs) = set xs" "sum_list (map f (shuffle xs)) = sum_list (map f xs)" for xs and f :: "fuzz_order \<Rightarrow> int"
    using assms(2) [of xs] by (metis set_mset_mset) (metis assms(2) mset_map sum_mset_sum_list)
  with g show "good_batch (gen_batch shuffle ds)"
    by (simp add: good_batch_def gen_batch_def Let_def)
  show "0 < fz_volume (gen_batch shuffle ds)" if "ds \<noteq> []"
    using fold_pairs_volume [OF assms(1) that, of no_batch] by (simp add: gen_batch_def Let_def no_batch_def)
qed

lemma placed_oids: "map o_oid (fuzz_placed fos) = map int [0..<length fos]"
proof -
  have "map o_oid (fuzz_placed fos) = map int (map fst (enumerate 0 fos))"
    unfolding fuzz_placed_def map_map by (rule map_cong) (auto simp: place_terms_def mk_order_def)
  then show ?thesis by simp
qed

lemma placed_in: "od \<in> set (fuzz_placed fos) \<Longrightarrow> \<exists>i. \<exists>fo\<in>set fos. od = place_terms i fo"
  by (auto simp: fuzz_placed_def enumerate_eq_zip dest: set_zip_rightD)

lemma placed_totals: "side_total s (fuzz_placed fos) = sum_list (map (side_qty s) fos) * SCALE"
proof -
  have "side_total s (map (\<lambda>(i, fo). place_terms (int i) fo) (enumerate n fos)) = sum_list (map (side_qty s) fos) * SCALE" for n
    by (induction fos arbitrary: n)
      (auto simp: side_total_def place_terms_def mk_order_def side_qty_def algebra_simps)
  then show ?thesis by (simp add: fuzz_placed_def)
qed

lemma placed_terms:
  assumes "in_band fo"
  shows "0 < o_qty (place_terms i fo)" "eligible 10000 (place_terms i fo)"
    "o_side (place_terms i fo) = BUY \<and> o_price (place_terms i fo) \<le> 10200 \<or>
     o_side (place_terms i fo) = SELL \<and> 9800 \<le> o_price (place_terms i fo)"
  using assms by (cases fo; auto simp: in_band_def place_terms_def mk_order_def eligible_def SCALE_def)+

lemma placed_balanced:
  assumes "good_batch b" and "0 < fz_volume b"
  shows "balanced_cross (fuzz_placed (fz_orders b)) (fz_volume b * SCALE) 10000"
proof -
  have t: "0 < o_qty od \<and> eligible 10000 od \<and> (o_side od = BUY \<or> o_side od = SELL)" if od: "od \<in> set (fuzz_placed (fz_orders b))" for od
  proof -
    from placed_in [OF od] obtain i fo where "fo \<in> set (fz_orders b)" "od = place_terms i fo" by blast
    with assms(1) show ?thesis using placed_terms [of fo i] by (auto simp: good_batch_def)
  qed
  then have "wf_batch (fuzz_placed (fz_orders b))"
    by (auto simp: wf_batch_def placed_oids distinct_map less_imp_le)
  then show ?thesis
    using t assms by (auto simp: balanced_cross_def placed_totals good_batch_def SCALE_def)
qed

text \<open>The price of a balanced batch lies inside the crossing band.\<close>

lemma placed_price:
  assumes g: "good_batch b" and v: "0 < fz_volume b"
  shows "9800 \<le> cl_price (clear (fuzz_placed (fz_orders b)))" "cl_price (clear (fuzz_placed (fz_orders b))) \<le> 10200"
proof -
  let ?os = "fuzz_placed (fz_orders b)"
  note bc = placed_balanced [OF g v]
  have ex: "\<exists>od\<in>set ?os. o_side od = s" if "side_total s ?os = fz_volume b * SCALE" for s
  proof (rule ccontr)
    assume "\<not> ?thesis"
    then have "side_total s ?os = 0" by (auto simp: side_total_def filter_empty_conv)
    then show False using that v by (simp add: SCALE_def)
  qed
  have lim: "o_side od = BUY \<and> o_price od \<le> 10200 \<or> o_side od = SELL \<and> 9800 \<le> o_price od" if od: "od \<in> set ?os" for od
  proof -
    from placed_in [OF od] obtain i fo where "fo \<in> set (fz_orders b)" "od = place_terms i fo" by blast
    with g show ?thesis using placed_terms(3) [of fo i] by (auto simp: good_batch_def)
  qed
  obtain x where x: "x \<in> set ?os" "o_side x = BUY" using ex [OF balanced_crossD(4) [OF bc]] by blast
  obtain y where y: "y \<in> set ?os" "o_side y = SELL" using ex [OF balanced_crossD(5) [OF bc]] by blast
  show "cl_price (clear ?os) \<le> 10200" using volume_and_limits(2) [OF bc x(1)] lim [OF x(1)] x(2) by (auto simp: eligible_def)
  show "9800 \<le> cl_price (clear ?os)" using volume_and_limits(2) [OF bc y(1)] lim [OF y(1)] y(2) by (auto simp: eligible_def)
qed

section \<open>The generator and its oracle\<close>

text \<open>C23: a generated batch clears in full. Whatever was drawn within the ranges the generator asks
  for and however the orders were shuffled, the batch clears its whole expected volume, every order
  is filled entirely, and the uniform price lies between \<^verbatim>\<open>SELL_LO\<close> and \<^verbatim>\<open>BUY_HI\<close>.\<close>

theorem balanced_batch_clears_in_full:
  assumes "list_all valid_draw draws" and "draws \<noteq> []" and "\<And>xs. mset (shuffle xs) = mset xs"
    and "b = gen_batch shuffle draws" and "os = fuzz_placed (fz_orders b)"
  shows "cl_volume (clear os) = fz_volume b * SCALE \<and>
    (\<forall>od\<in>set os. fill_of (cl_fills (clear os)) (o_oid od) = o_qty od) \<and>
    fst SELL_BAND * of_int SCALE \<le> of_int (cl_price (clear os)) \<and>
    of_int (cl_price (clear os)) \<le> snd BUY_BAND * of_int SCALE"
proof -
  have g: "good_batch b" "0 < fz_volume b" using gen_batch_good [OF assms(1,3)] assms(2,4) by auto
  note bc = placed_balanced [OF g]
  have "of_int 9800 \<le> (of_int (cl_price (clear os)) :: rat)" "(of_int (cl_price (clear os)) :: rat) \<le> of_int 10200"
    using placed_price [OF g] unfolding of_int_le_iff by (simp_all add: assms(5))
  then show ?thesis
    using volume_and_limits(1) [OF bc] fills_in_full [OF bc]
    by (simp add: assms(5) SELL_BAND_def BUY_BAND_def SCALE_def)
qed

definition example_draws :: "fuzz_draw list" where
  "example_draws = [\<lparr>dr_buyer = 1, dr_seller = 2, dr_qty = 5, dr_bid = 10123 / 10000, dr_ask = 985 / 1000\<rparr>,
    \<lparr>dr_buyer = 3, dr_seller = 1, dr_qty = 20, dr_bid = 102 / 100, dr_ask = 98004 / 100000\<rparr>]"

theorem balanced_batch_clears_in_full_witness:
  "cl_volume (clear (fuzz_placed (fz_orders (gen_batch rev example_draws)))) = 250000 \<and>
   list_all valid_draw example_draws \<and> example_draws \<noteq> []"
proof -
  have d: "list_all valid_draw example_draws" "example_draws \<noteq> []" by code_simp+
  have v: "fz_volume (gen_batch rev example_draws) * SCALE = 250000" by code_simp
  have m: "\<And>xs :: fuzz_order list. mset (rev xs) = mset xs" by simp
  show ?thesis
    using balanced_batch_clears_in_full [OF d m refl refl] d v by simp
qed

text \<open>The ledger the service keeps of a batch traded at the atomic price \<open>p\<close>: every account's base
  moves by what it bought less what it sold less the flat fee of its orders, its quote by the price
  of them, and the fees reach the treasury.\<close>

definition settled :: "fuzz_batch \<Rightarrow> int \<Rightarrow> chain_view \<Rightarrow> chain_view" where
  "settled b p cw = cw\<lparr>
     cw_bal := (\<lambda>a h. cw_bal cw a h +
       (if h \<in> set ACCTS then
          (if a = DOT then fz_dot b h * SCALE - FEE_FLAT * fz_norders b h else if a = USDC then - fz_dot b h * p else 0)
        else if h = FUZZ_TREASURY \<and> a = DOT then FEE_FLAT * sum_list (map (fz_norders b) ACCTS) else 0)),
     cw_cv := cw_cv cw + fz_volume b * SCALE, cw_book := []\<rparr>"

lemmas asset_ids = USDC_def DOT_def JAMKB_def

lemma settled_supply:
  assumes "good_batch b" and "a = USDC \<or> a = DOT"
  shows "supply_of (cw_bal (settled b p cw)) a = supply_of (cw_bal cw) a"
proof -
  have "fz_dot b 1 + fz_dot b 2 + fz_dot b 3 + fz_dot b 4 + fz_dot b 5 + fz_dot b 6 = 0"
    using assms(1) by (simp add: good_batch_def ACCTS_def)
  then have "(fz_dot b 1 + fz_dot b 2 + fz_dot b 3 + fz_dot b 4 + fz_dot b 5 + fz_dot b 6) * x = 0" for x by simp
  from this [of p] this [of SCALE] show ?thesis
    using assms(2) by (auto simp: supply_of_def settled_def ACCTS_def FUZZ_TREASURY_def asset_ids algebra_simps)
qed

lemma settled_band:
  assumes g: "good_batch b" and p: "9800 \<le> p" "p \<le> 10200" and t: "0 \<le> tol" and h: "h \<in> set ACCTS"
  shows "in_value_band tol b cw (settled b p cw) h"
proof -
  define x y P :: rat where "x = of_int (fz_buy b h)" and "y = of_int (fz_sell b h)" and "P = of_int p / 10000"
  have xy: "0 \<le> x" "0 \<le> y" using g by (simp_all add: good_batch_def x_def y_def)
  have "of_int 9800 \<le> (of_int p :: rat)" "(of_int p :: rat) \<le> of_int 10200" using p by (simp_all only: of_int_le_iff)
  then have P: "98 / 100 \<le> P" "P \<le> 102 / 100" by (simp_all add: P_def)
  have m: "x * (98 / 100) \<le> x * P" "x * P \<le> x * (102 / 100)" "y * (98 / 100) \<le> y * P" "y * P \<le> y * (102 / 100)"
    by (rule mult_left_mono; use xy P in simp)+
  have dot: "of_int (fz_dot b h) = x - y" using g by (simp add: good_batch_def x_def y_def)
  have du: "of_int (cw_bal (settled b p cw) USDC h - cw_bal cw USDC h) / of_int SCALE = y * P - x * P"
    using h by (simp add: settled_def asset_ids dot P_def SCALE_def algebra_simps diff_divide_distrib)
  have tl: "(0 :: rat) \<le> of_int tol" using t by simp
  show ?thesis
    unfolding in_value_band_def Let_def du using m tl
    by (simp add: BUY_BAND_def SELL_BAND_def x_def [symmetric] y_def [symmetric])
qed


definition funded :: chain_view where
  "funded = \<lparr>cw_bal = (\<lambda>a h. 10000000), cw_cv = 0, cw_book = []\<rparr>"


end
