(* ===== verification/Onehead.thy ===== *)
theory Onehead
  imports Effects
begin

text \<open>
  The one-head monitor (\<^verbatim>\<open>nets/onehead.py\<close>): whether a block lies on the chain that ends at another,
  the classification of one sample, and the judgement of a run. What the nodes answer is an argument
  (a \<open>probe\<close> holds one node's answers during a sample), as is the text of an error. Node names are
  the distinct service names of a compose file. Printing, the sample file and the sleeping loop are
  not modelled.

  \<open>on_chain\<close> is proved to decide ancestry in the block tree, and to keep its cache a part of that
  tree; the judgement of a run is characterised and shown to pass some runs with a lasting fork.
\<close>

type_synonym blk = "int \<times> string"

record probe =
  pr_can_walk :: bool
  pr_best :: "blk option res"
  pr_finalized :: "(int \<times> string option) option res"
  pr_parent :: "string \<Rightarrow> blk option res"
  pr_seen :: "int \<Rightarrow> string option"

type_synonym ancestry = "string \<rightharpoonup> blk"

section \<open>Ancestry\<close>

text \<open>The loop of \<^verbatim>\<open>on_chain\<close>; \<open>None\<close> inside is the answer \<^verbatim>\<open>None\<close>, after the last of its turns.\<close>

fun walk :: "(string \<Rightarrow> blk option res) \<Rightarrow> nat \<Rightarrow> blk \<Rightarrow> blk \<Rightarrow> ancestry \<Rightarrow> bool option res \<times> ancestry" where
  "walk parent 0 cur other cache = (Inr None, cache)"
| "walk parent (Suc n) cur other cache =
     (if fst cur \<le> fst other then (Inr (Some (cur = other)), cache)
      else case cache (snd cur) of
        Some nxt \<Rightarrow> walk parent n nxt other cache
      | None \<Rightarrow> (case parent (snd cur) of
          Inl e \<Rightarrow> (Inl e, cache)
        | Inr None \<Rightarrow> (Inr (Some False), cache)
        | Inr (Some nxt) \<Rightarrow> walk parent n nxt other (cache(snd cur \<mapsto> nxt))))"

definition on_chain :: "probe \<Rightarrow> blk \<Rightarrow> blk \<Rightarrow> ancestry \<Rightarrow> bool option res \<times> ancestry" where
  "on_chain tip_probe tip other cache =
     (if snd tip = snd other then (Inr (Some True), cache)
      else if fst tip \<le> fst other then (Inr (Some False), cache)
      else if \<not> pr_can_walk tip_probe then
        (Inr (case pr_seen tip_probe (fst other) of None \<Rightarrow> None | Some seen \<Rightarrow> Some (seen = snd other)), cache)
      else walk (pr_parent tip_probe) 64 tip other cache)"

section \<open>One sample\<close>

datatype head_verdict = SAME | LAG | FORK | DOWN

record head_sample =
  hs_verdict :: head_verdict
  hs_heads :: "(string \<times> blk) list"
  hs_fins :: "(string \<times> (int \<times> string option) option) list"
  hs_down :: "string list"
  hs_forked :: "string list"
  hs_fin_conflict :: "string list"

text \<open>The first of the highest: \<^verbatim>\<open>max(d, key=...)\<close>.\<close>

definition highest :: "(string \<times> blk) list \<Rightarrow> string \<times> blk" where
  "highest hs = foldl (\<lambda>a x. if fst (snd a) < fst (snd x) then x else a) (hd hs) (tl hs)"

text \<open>The names whose block the top's probe says is not on the top's chain, and whether some other
  block is on it or undecided.\<close>

fun off_chain :: "probe \<Rightarrow> blk \<Rightarrow> (string \<times> blk) list \<Rightarrow> ancestry \<Rightarrow> (string list \<times> bool) res \<times> ancestry" where
  "off_chain p tip [] cache = (Inr ([], False), cache)"
| "off_chain p tip ((name, h) # hs) cache =
     (if h = tip then off_chain p tip hs cache
      else case on_chain p tip h cache of
        (Inl e, c) \<Rightarrow> (Inl e, c)
      | (Inr a, c) \<Rightarrow> (case off_chain p tip hs c of
          (Inl e, c') \<Rightarrow> (Inl e, c')
        | (Inr (off, behind), c') \<Rightarrow>
            (Inr (if a = Some False then (name # off, behind) else (off, True)), c')))"

text \<open>A node without a best block answers \<^verbatim>\<open>None\<close>, on which the search for the highest head raises.\<close>

definition sample_heads :: "(string \<times> probe) list \<Rightarrow> ancestry \<Rightarrow> head_sample res \<times> ancestry" where
  "sample_heads ps cache =
     (let heads = [(n, b). (n, p) \<leftarrow> ps, b \<leftarrow> (case pr_best p of Inr (Some b) \<Rightarrow> [b] | _ \<Rightarrow> [])];
          fins = [(n, f). (n, p) \<leftarrow> ps, f \<leftarrow> (case (pr_best p, pr_finalized p) of (Inr _, Inr f) \<Rightarrow> [f] | _ \<Rightarrow> [])];
          down = [n. (n, p) \<leftarrow> ps, \<not> (is_ok (pr_best p) \<and> is_ok (pr_finalized p))];
          against = (\<lambda>hs c. if hs = [] then (Inr ([], False), c)
             else off_chain (the (map_of ps (fst (highest hs)))) (snd (highest hs)) hs c);
          hashed = [(n, (s, h)). (n, Some (s, Some h)) \<leftarrow> fins, h \<noteq> []] in
      if list_ex (\<lambda>(n, p). pr_best p = Inr None) ps then (Inl TypeError, cache)
      else case against heads cache of
        (Inl e, c) \<Rightarrow> (Inl e, c)
      | (Inr (forked, behind), c) \<Rightarrow> (case against hashed c of
          (Inl e, c') \<Rightarrow> (Inl e, c')
        | (Inr (conflict, _), c') \<Rightarrow> (Inr \<lparr>
            hs_verdict = (if down \<noteq> [] then DOWN else if forked \<noteq> [] then FORK else if behind then LAG else SAME),
            hs_heads = heads, hs_fins = fins, hs_down = down, hs_forked = forked, hs_fin_conflict = conflict\<rparr>, c')))"

section \<open>The judgement of a run\<close>

text \<open>\<^verbatim>\<open>worst\<close>: the longest run of samples with the verdict FORK.\<close>

fun longest_fork :: "nat \<Rightarrow> head_sample list \<Rightarrow> nat" where
  "longest_fork run [] = 0"
| "longest_fork run (s # ss) =
     (let run' = (if hs_verdict s = FORK then run + 1 else 0) in max run' (longest_fork run' ss))"

definition head_slots :: "string \<Rightarrow> head_sample list \<Rightarrow> int list" where
  "head_slots k ss = [fst b. s \<leftarrow> ss, b \<leftarrow> (case map_of (hs_heads s) k of None \<Rightarrow> [] | Some b \<Rightarrow> [b])]"

definition summarize :: "head_sample list \<Rightarrow> string list \<Rightarrow> bool" where
  "summarize samples names =
     (let heads_ok = (length samples = 1 \<or>
            list_all (\<lambda>k. let seen = head_slots k samples in seen \<noteq> [] \<and> hd seen < last seen) names);
          fin_conf = length (filter (\<lambda>s. hs_fin_conflict s \<noteq> []) samples) in
      longest_fork 0 samples \<le> 2 \<and> hs_verdict (last samples) \<in> {SAME, LAG} \<and> heads_ok \<and> fin_conf = 0)"

section \<open>Ancestry is decided exactly\<close>

text \<open>The chain that ends at a block, in a tree given by its parent links.\<close>

inductive ancestor :: "ancestry \<Rightarrow> blk \<Rightarrow> blk \<Rightarrow> bool" for par where
  self: "ancestor par b b"
| up: "par (snd b) = Some c \<Longrightarrow> ancestor par c d \<Longrightarrow> ancestor par b d"

inductive_cases ancestorE: "ancestor par b d"

text \<open>Slots fall along the parent links.\<close>

definition slots_fall :: "ancestry \<Rightarrow> blk \<Rightarrow> bool" where
  "slots_fall par b \<longleftrightarrow> (\<forall>c d. ancestor par b c \<longrightarrow> par (snd c) = Some d \<longrightarrow> fst d < fst c)"

lemma slots_fall_up: "slots_fall par b \<Longrightarrow> par (snd b) = Some c \<Longrightarrow> slots_fall par c"
  unfolding slots_fall_def by (blast intro: ancestor.up)

lemma ancestor_below: "ancestor par b d \<Longrightarrow> slots_fall par b \<Longrightarrow> d = b \<or> fst d < fst b"
proof (induction rule: ancestor.induct)
  case (up b c d)
  have "fst c < fst b" using up.prems up.hyps(1) unfolding slots_fall_def by (blast intro: ancestor.self)
  with up.IH [OF slots_fall_up [OF up.prems up.hyps(1)]] show ?case by auto
qed simp

text \<open>A block that is above another is an ancestor of it only through its parent.\<close>

lemma ancestor_step:
  assumes "fst d < fst b"
  shows "ancestor par b d \<longleftrightarrow> (\<exists>c. par (snd b) = Some c \<and> ancestor par c d)"
  using assms by (auto elim: ancestorE intro: ancestor.up)

lemma walk_exact:
  assumes "\<And>h. parent h = Inr (par h)" and "cache \<subseteq>\<^sub>m par" and "slots_fall par cur"
    and "walk parent n cur other cache = (r, cache')"
  shows "cache' \<subseteq>\<^sub>m par \<and> (\<exists>a. r = Inr a \<and> (\<forall>x. a = Some x \<longrightarrow> (x \<longleftrightarrow> ancestor par cur other))) \<and>
    (n > nat (fst cur - fst other) \<longrightarrow> r \<noteq> Inr None)"
  using assms(2-4)
proof (induction n arbitrary: cur cache)
  case (Suc n)
  show ?case
  proof (cases "fst cur \<le> fst other")
    case True
    with Suc.prems show ?thesis
      using ancestor_below [of par cur other] by (auto intro: ancestor.self)
  next
    case False
    note step = ancestor_step [of other cur par]
    have fall: "fst c < fst cur \<and> slots_fall par c" if "par (snd cur) = Some c" for c
      using Suc.prems(2) that slots_fall_up [OF Suc.prems(2) that] ancestor.self [of par cur]
      unfolding slots_fall_def [of par cur] by blast
    show ?thesis
    proof (cases "par (snd cur)")
      case None
      then have "cache (snd cur) = None" using Suc.prems(1) by (metis domIff in_mono map_le_implies_dom_le)
      then show ?thesis using None False Suc.prems step by (auto simp: assms(1))
    next
      case (Some c)
      let ?c = "cache(snd cur \<mapsto> c)"
      have le: "?c \<subseteq>\<^sub>m par" using Suc.prems(1) Some by (auto simp: map_le_def)
      have "cache (snd cur) = Some c \<or> cache (snd cur) = None"
        using Suc.prems(1) Some by (cases "cache (snd cur)") (auto simp: map_le_def dom_def)
      then have "walk parent n c other ?c = (r, cache')"
        using Suc.prems(3) False assms(1) [of "snd cur"] Some by (auto simp: fun_upd_idem)
      from Suc.IH [OF le conjunct2 [OF fall [OF Some]] this] show ?thesis
        using step False Some fall [OF Some] by auto
    qed
  qed
qed auto

text \<open>C25: \<^verbatim>\<open>on_chain\<close> decides ancestry. For a node that answers from a block tree whose slots fall along
  the parent links, with a cache that is part of that tree, an answer True or False says exactly
  whether the block lies on the chain ending at the tip. There is an answer whenever the block is
  less than 64 slots below the tip, and the cache stays a part of the tree.\<close>

theorem on_chain_exact:
  assumes "pr_can_walk p" and "\<And>h. pr_parent p h = Inr (par h)" and "cache \<subseteq>\<^sub>m par"
    and "slots_fall par tip" and "snd tip = snd other \<longrightarrow> tip = other"
    and "on_chain p tip other cache = (r, cache')"
  shows "cache' \<subseteq>\<^sub>m par \<and> (\<exists>a. r = Inr a \<and> (\<forall>x. a = Some x \<longrightarrow> (x \<longleftrightarrow> ancestor par tip other))) \<and>
    (fst tip - fst other < 64 \<longrightarrow> r \<noteq> Inr None)"
proof (cases "snd tip = snd other \<or> fst tip \<le> fst other")
  case True
  then show ?thesis
    using assms(3-6) ancestor_below [of par tip other] by (auto simp: on_chain_def intro: ancestor.self split: if_splits)
next
  case False
  with assms(1,6) have "walk (pr_parent p) 64 tip other cache = (r, cache')" by (simp add: on_chain_def)
  from walk_exact [OF assms(2-4) this] show ?thesis using False by auto
qed

definition example_tree :: ancestry where
  "example_tree = map_of [(''c'', (3, ''b'')), (''b'', (1, ''a''))]"

definition example_probe :: probe where
  "example_probe = \<lparr>pr_can_walk = True, pr_best = Inr (Some (7, ''c'')), pr_finalized = Inr None,
     pr_parent = (\<lambda>h. Inr (example_tree h)), pr_seen = (\<lambda>_. None)\<rparr>"

lemma example_ancestors: "ancestor example_tree (7, ''c'') d \<Longrightarrow> d \<in> {(7, ''c''), (3, ''b''), (1, ''a'')}"
proof -
  have a: "ancestor example_tree (1, ''a'') d \<longleftrightarrow> d = (1, ''a'')" by (subst ancestor.simps) (auto simp: example_tree_def)
  have b: "ancestor example_tree (3, ''b'') d \<longleftrightarrow> d = (3, ''b'') \<or> ancestor example_tree (1, ''a'') d"
    by (subst ancestor.simps) (auto simp: example_tree_def)
  show "ancestor example_tree (7, ''c'') d \<Longrightarrow> d \<in> {(7, ''c''), (3, ''b''), (1, ''a'')}"
    using a b by (subst (asm) ancestor.simps) (auto simp: example_tree_def)
qed

theorem on_chain_exact_witness:
  "fst (on_chain example_probe (7, ''c'') (1, ''a'') Map.empty) = Inr (Some True) \<and> ancestor example_tree (7, ''c'') (1, ''a'')"
proof -
  have fall: "slots_fall example_tree (7, ''c'')"
    unfolding slots_fall_def using example_ancestors by (fastforce simp: example_tree_def split: if_splits)
  obtain r c where r: "on_chain example_probe (7, ''c'') (1, ''a'') Map.empty = (r, c)" by (cases "on_chain example_probe (7, ''c'') (1, ''a'') Map.empty")
  have v: "fst (on_chain example_probe (7, ''c'') (1, ''a'') Map.empty) = Inr (Some True)" by code_simp
  have "ancestor example_tree (7, ''c'') (1, ''a'')"
    using on_chain_exact [of example_probe example_tree Map.empty "(7, ''c'')" "(1, ''a'')", OF _ _ _ fall _ r] v r
    by (auto simp: example_probe_def)
  with v show ?thesis by simp
qed

section \<open>What a passing run means\<close>

fun fork_thrice :: "head_verdict list \<Rightarrow> bool" where
  "fork_thrice (a # b # c # vs) \<longleftrightarrow> a = FORK \<and> b = FORK \<and> c = FORK \<or> fork_thrice (b # c # vs)"
| "fork_thrice vs \<longleftrightarrow> False"

lemma fork_thrice_reset: "v \<noteq> FORK \<Longrightarrow> fork_thrice (v # vs) = fork_thrice vs"
  by (cases vs rule: fork_thrice.cases) auto

lemma fork_thrice_skip:
  assumes v: "v \<noteq> FORK" and "run \<le> 2"
  shows "fork_thrice (replicate run FORK @ v # vs) = fork_thrice vs"
proof -
  have one: "fork_thrice (FORK # v # vs) = fork_thrice (v # vs)" using v by (cases vs) simp_all
  have two: "fork_thrice (FORK # FORK # v # vs) = fork_thrice (FORK # v # vs)" using v by simp
  consider "run = 0" | "run = 1" | "run = 2" using assms(2) by linarith
  then show ?thesis
  proof cases
    case 1
    then show ?thesis by (simp only: replicate_0 append_Nil fork_thrice_reset [OF v])
  next
    case 2
    then show ?thesis
      by (simp only: One_nat_def replicate_Suc replicate_0 append_Cons append_Nil one fork_thrice_reset [OF v])
  next
    case 3
    then show ?thesis
      by (simp only: numeral_2_eq_2 replicate_Suc replicate_0 append_Cons append_Nil two one fork_thrice_reset [OF v])
  qed
qed

lemma longest_fork_iff:
  "run \<le> 2 \<Longrightarrow> longest_fork run ss \<le> 2 \<longleftrightarrow> \<not> fork_thrice (replicate run FORK @ map hs_verdict ss)"
proof (induction ss arbitrary: run)
  case Nil
  then have "run = 0 \<or> run = 1 \<or> run = 2" by auto
  then show ?case by (auto simp: numeral_2_eq_2)
next
  case (Cons s ss)
  have run: "run = 0 \<or> run = 1 \<or> run = 2" using Cons.prems by auto
  show ?case
  proof (cases "hs_verdict s = FORK")
    case True
    show ?thesis
    proof (cases "run = 2")
      case True
      with \<open>hs_verdict s = FORK\<close> show ?thesis by (simp add: Let_def numeral_2_eq_2)
    next
      case False
      then have "longest_fork run (s # ss) \<le> 2 \<longleftrightarrow> longest_fork (run + 1) ss \<le> 2" using True run by (auto simp: Let_def)
      also have "\<dots> \<longleftrightarrow> \<not> fork_thrice (replicate (run + 1) FORK @ map hs_verdict ss)" using False run by (intro Cons.IH) auto
      finally show ?thesis using True by (simp add: replicate_app_Cons_same)
    qed
  next
    case False
    have "longest_fork 0 ss \<le> 2 \<longleftrightarrow> \<not> fork_thrice (map hs_verdict ss)" using Cons.IH [of 0] by simp
    then show ?thesis using fork_thrice_skip [OF False Cons.prems] False by (simp add: Let_def)
  qed
qed


text \<open>Two nodes on different blocks of one slot in every sample but the last, a third node that misses
  every third sample: the run passes although the fork persisted.\<close>

definition fixed_probe :: "blk \<Rightarrow> bool \<Rightarrow> probe" where
  "fixed_probe b up = \<lparr>pr_can_walk = True, pr_best = (if up then Inr (Some b) else Inl OSError), pr_finalized = Inr None,
     pr_parent = (\<lambda>_. Inr None), pr_seen = (\<lambda>_. None)\<rparr>"

definition split_net :: "int \<Rightarrow> string \<Rightarrow> bool \<Rightarrow> head_sample res" where
  "split_net slot h up = fst (sample_heads
     [(''n1'', fixed_probe (slot, ''x'') True), (''n2'', fixed_probe (slot, h) True), (''n3'', fixed_probe (slot, ''x'') up)] Map.empty)"

definition split_run :: "head_sample list res" where
  "split_run = map_res (\<lambda>(slot, h, up). split_net slot h up)
     [(1, ''y'', True), (2, ''y'', True), (3, ''y'', False), (4, ''y'', True), (5, ''y'', True), (6, ''x'', True)]"

lemma lasting_fork_passes:
  "case split_run of Inl _ \<Rightarrow> False
   | Inr ss \<Rightarrow> list_all (\<lambda>s. hs_forked s = [''n2'']) (butlast ss) \<and> summarize ss [''n1'', ''n2'', ''n3'']"
  by code_simp

text \<open>A node that answers for its heads and then fails to answer for a parent is not counted as down:
  the error leaves the sampler.\<close>

definition silent_probe :: "blk \<Rightarrow> probe" where
  "silent_probe b = (fixed_probe b True)\<lparr>pr_parent := (\<lambda>_. Inl OSError)\<rparr>"

lemma parent_error_escapes:
  "fst (sample_heads [(''n1'', silent_probe (9, ''z'')), (''n2'', fixed_probe (8, ''x'') True)] Map.empty) = Inl OSError"
  by code_simp

end
