(* ===== verification/Spec2Isabelle.thy ===== *)
theory Spec2Isabelle
  imports Server_Placement Server_Waits Server_Secrets Server_Keeper Server_Limits Netwatch Dex_Fuzz Onehead
begin

text \<open>
  A verification development for the off-chain half of jamswap, a sealed-bid batch-auction exchange whose
  rounds are settled by a service on a JAM chain. The repository's sources are under \<^verbatim>\<open>src/\<close>; the Python
  of \<^verbatim>\<open>src/offchain\<close> is what is modelled, with one monitor of \<^verbatim>\<open>src/nets\<close> and the acceptance rule of
  \<^verbatim>\<open>src/crates/match-engine/src/floors.rs\<close>.

  \<^bold>\<open>The program.\<close> Traders place public orders and sealed ones (a commitment first, the terms only when
  they can trade) with an HTTP server, which queues them in a mempool per market. Every few seconds it plans
  a round per market, clears it, encodes it and submits it as a work-package. The chain may take it, drop
  it, or include it late, and a landing may be undone by a re-org; a resolver thread judges every round
  from what it reads on the chain, receipts the orders of a durable landing, carries the unfilled rest
  of sealed orders into fresh commitments, and puts back the orders of a dead round. Around it are the
  treasury that pays the service's state rent, the order telemetry and the soak verdict computed from its
  log, the monitors that judge whether the nodes follow one chain, and a fuzzer of deep batches.

  \<^bold>\<open>Shared vocabulary.\<close> \<open>Prelude\<close>: octets, little-endian integers, exceptions as values, list facts.
  \<open>Effects\<close>: dicts as association lists in insertion order, the state-and-exception computations in which
  the server is written (a raise keeps the changes made before it), Python's rounding, and \<open>keeps\<close>, the rule
  by which an invariant is followed through a handler's text. \<open>Blake2\<close>: BLAKE2b-256 and BLAKE2s-256, the
  parts of \<^verbatim>\<open>hashlib\<close> the code uses. \<open>Orders\<close>: the order dict.

  \<^bold>\<open>Components, with the file each models.\<close>
  \<^item> \<open>Clearing\<close> (\<^verbatim>\<open>clearing.py\<close>): the uniform-price auction. The price maximises the volume over all prices with
    the documented tie-breaks; fills are in price-time priority, within limits, and sum to the volume.
  \<^item> \<open>Round_Plan\<close> (\<^verbatim>\<open>round.py\<close>) and \<open>Seq_Cap\<close> (\<^verbatim>\<open>server.py\<close>: \<^verbatim>\<open>_cap_batch\<close>, \<^verbatim>\<open>_seq_sanitize\<close>, the market prices;
    \<^verbatim>\<open>floors.rs\<close>: \<^verbatim>\<open>check_bindings\<close>): which queued orders join a round. The locale \<open>fit_policy\<close> is what the
    planner needs of a capacity policy, interpreted on \<open>cap_batch\<close>; a plan places every order once and holding
    orders back does not change the clearing; what the builder submits is accepted by the service's rule.
  \<^item> \<open>Work_Package\<close> (\<^verbatim>\<open>workpackage.py\<close>): the codec, with the locale \<open>codec\<close> as the law of each type; round trip,
    injectivity, and the exact domain of the encoder. \<open>Chain_Types\<close> (\<^verbatim>\<open>chain.py\<close>): the values a back end returns.
  \<^item> \<open>Treasury\<close> (\<^verbatim>\<open>treasury.py\<close>): rent, profit, reserve and top-up arithmetic.
  \<^item> \<open>Metrics\<close> (\<^verbatim>\<open>metrics.py\<close>), \<open>Telemetry\<close> (\<^verbatim>\<open>order_telemetry.py\<close>), \<open>Soak_Verdict\<close> (\<^verbatim>\<open>soak_verdict.py\<close>): the registry
    and the pending ledger, the life of each order with its event log, and the verdict over the log; the
    live gauge of stuck orders agrees with the verdict on every run of the telemetry.
  \<^item> The server, \<^verbatim>\<open>server.py\<close>. \<open>Server_State\<close> has the module's globals as the record \<open>dex\<close> and everything outside the
    process as the record \<open>env\<close>; \<open>Server_Receipts\<close>, \<open>Server_Rounds\<close> (confirming, carrying, finalizing, releasing,
    watching), \<open>Server_Build\<close> (\<^verbatim>\<open>build_round\<close>), \<open>Server_Resolver\<close> (the sweep), \<open>Server_Treasury\<close> (deposits, reserve,
    keeper; and the helpers of \<^verbatim>\<open>dex_setup.py\<close> they call), \<open>Server_Door\<close> (accounts and \<^verbatim>\<open>api_order\<close>), \<open>Server_Views\<close>
    (public and private views, removal, auction pass, statistics) and \<open>Server_Loops\<close> (POST dispatch, start-up waits)
    follow the file's own order of calls, one definition per function or named part of one.
  \<^item> \<open>Netwatch\<close> (\<^verbatim>\<open>netwatch.py\<close>) and \<open>Onehead\<close> (\<^verbatim>\<open>src/nets/onehead.py\<close>): the judgements of the two monitors.
  \<^item> \<open>Dex_Fuzz\<close> (\<^verbatim>\<open>dex_fuzz.py\<close>): the batch generator and its oracle.

  \<^bold>\<open>What is shown of the server.\<close> \<open>Server_Frames\<close> holds the locale \<open>state_frame\<close>: a relation between the state
  before and after a call that allows what every call does (the clock, concurrent arrivals, telemetry,
  caches). Every read, submission and judgement keeps such a relation, proved once; the relations used are its
  interpretations. On it rest
  \<^item> \<open>Server_Zero_Loss\<close>: a build loses no order, whatever fails, and reveals a sealed order only when its
    commitment was ready and a counterparty rides along;
  \<^item> \<open>Server_Settle\<close>: judging the round in flight loses no order and receipts only a durable landing; the
    unfilled rest of every sealed order is carried exactly once;
  \<^item> \<open>Server_Placement\<close>: what an accepted order satisfies; \<open>Server_Secrets\<close>: the public view depends on no sealed
    terms; \<open>Server_Keeper\<close>: the reserve keeper's deposits are never doubled; \<open>Server_Waits\<close>: the start-up waits
    return; \<open>Server_Limits\<close>: the watch list is bounded, with concrete runs for the faults the model showed.

  \<^bold>\<open>How the outside enters.\<close> Every answer of the chain, the committee, the clocks, the random source, the
  ed25519 library and the other request threads is a field of \<open>env\<close>, a function of a tick that counts the
  interactions; theorems quantify over all of them, so over every sequence of answers and errors. No law
  is assumed of them except where a theorem names it (the clock of \<open>startup_waits_return\<close>; the ranges and
  the shuffle of the fuzzer's draws; the block tree of \<open>on_chain_exact\<close>). Threads interleave where the code
  waits for the chain: the orders that arrive meanwhile are \<open>w_arrive\<close>, and a market lock held elsewhere is
  \<open>w_busy\<close>. Object identity, where the code compares with \<^verbatim>\<open>is\<close>, is a uid. Floats that are times, prices or
  rates are rationals; integers are Python's, checked against their field where they are packed.

  \<^bold>\<open>Fuel.\<close> Only the start-up waits take fuel, because they end by a clock; \<open>startup_waits_return\<close> shows that
  every large enough fuel gives their answer. \<open>Onehead.walk\<close> and \<open>Server_Loops.node_loop\<close> count the turns the
  source itself bounds (64 and 60). All other loops are structural or have a measure.

  \<^bold>\<open>Not modelled.\<close> The transports (\<^verbatim>\<open>chain.py\<close> back ends, \<^verbatim>\<open>jip2.py\<close>, HTTP, WebSocket), threads' sleeping and
  start-up, the JSON and log files, printed and exposed text, deployment (\<^verbatim>\<open>deploy.py\<close>, \<^verbatim>\<open>chainspec.py\<close>), the
  dev runner of \<^verbatim>\<open>dex_setup.py\<close>, load and smoke tools, net generation, dashboards, the web client: they
  are I/O around the logic above, and what the logic sees of them is a field of \<open>env\<close>. The sampling halves
  of the monitors and the HTTP half of the fuzzer are left out for the same reason. The service itself and
  the Rust match engine (\<^verbatim>\<open>service/src/lib.rs\<close>, \<^verbatim>\<open>crates/\<close>) are not modelled beyond \<^verbatim>\<open>check_bindings\<close>: they
  are compiled for a virtual machine whose host calls, signature checks and committee arithmetic come from
  crates outside the tree. \<^verbatim>\<open>workpackage.py\<close>'s text format of an authorizer and the text layout of
  \<^verbatim>\<open>metrics.py\<close> are omitted.
\<close>

end
